theory Spec2Isabelle
  imports Complex_Main
begin

section \<open>Python strings\<close>

text \<open>
  Step descriptions are Python \<open>str\<close> values. A \<open>char\<close> is one character with a code
  point below 256; strings with other characters are outside the model. On these
  characters \<open>str.lower\<close> changes the letters A to Z and the capital letters 0xC0 to
  0xDE other than the multiplication sign 0xD7. The whitespace of \<open>str.strip\<close> and of
  the regular expression class \<open>\s\<close> is tab, line feed, vertical tab, form feed,
  carriage return, the four separators 0x1C to 0x1F, space, next line (0x85) and
  no-break space (0xA0); the class \<open>\d\<close> is the digits 0 to 9.
\<close>

definition upper_to_lower :: "(char \<times> char) list" where
  "upper_to_lower =
     zip (''ABCDEFGHIJKLMNOPQRSTUVWXYZ''
          @ [CHR 0xC0, CHR 0xC1, CHR 0xC2, CHR 0xC3, CHR 0xC4, CHR 0xC5, CHR 0xC6, CHR 0xC7,
             CHR 0xC8, CHR 0xC9, CHR 0xCA, CHR 0xCB, CHR 0xCC, CHR 0xCD, CHR 0xCE, CHR 0xCF,
             CHR 0xD0, CHR 0xD1, CHR 0xD2, CHR 0xD3, CHR 0xD4, CHR 0xD5, CHR 0xD6,
             CHR 0xD8, CHR 0xD9, CHR 0xDA, CHR 0xDB, CHR 0xDC, CHR 0xDD, CHR 0xDE])
         (''abcdefghijklmnopqrstuvwxyz''
          @ [CHR 0xE0, CHR 0xE1, CHR 0xE2, CHR 0xE3, CHR 0xE4, CHR 0xE5, CHR 0xE6, CHR 0xE7,
             CHR 0xE8, CHR 0xE9, CHR 0xEA, CHR 0xEB, CHR 0xEC, CHR 0xED, CHR 0xEE, CHR 0xEF,
             CHR 0xF0, CHR 0xF1, CHR 0xF2, CHR 0xF3, CHR 0xF4, CHR 0xF5, CHR 0xF6,
             CHR 0xF8, CHR 0xF9, CHR 0xFA, CHR 0xFB, CHR 0xFC, CHR 0xFD, CHR 0xFE])"

definition lower_char :: "char \<Rightarrow> char" where
  "lower_char c = (case map_of upper_to_lower c of Some l \<Rightarrow> l | None \<Rightarrow> c)"

definition lower :: "string \<Rightarrow> string" where
  "lower s = map lower_char s"

definition is_space :: "char \<Rightarrow> bool" where
  "is_space c = (c \<in> set [CHR 0x09, CHR 0x0A, CHR 0x0B, CHR 0x0C, CHR 0x0D,
                            CHR 0x1C, CHR 0x1D, CHR 0x1E, CHR 0x1F, CHR '' '',
                            CHR 0x85, CHR 0xA0])"

definition is_digit :: "char \<Rightarrow> bool" where
  "is_digit c = (c \<in> set ''0123456789'')"

definition strip :: "string \<Rightarrow> string" where
  "strip s = rev (dropWhile is_space (rev (dropWhile is_space s)))"

fun starts_with :: "string \<Rightarrow> string \<Rightarrow> bool" where
  "starts_with [] s = True"
| "starts_with (p # ps) [] = False"
| "starts_with (p # ps) (c # cs) = (p = c \<and> starts_with ps cs)"

text \<open>\<open>str_find sub s\<close> is \<open>s.find(sub)\<close>: the least index where \<open>sub\<close> occurs, if any.
  \<open>sub in s\<close> holds exactly when it is not \<open>None\<close>, and then \<open>s.index(sub)\<close> is that
  index.\<close>

fun str_find :: "string \<Rightarrow> string \<Rightarrow> nat option" where
  "str_find sub [] = (if sub = [] then Some 0 else None)"
| "str_find sub (c # cs) =
     (if starts_with sub (c # cs) then Some 0 else map_option Suc (str_find sub cs))"

definition contains :: "string \<Rightarrow> string \<Rightarrow> bool" where
  "contains sub s = (str_find sub s \<noteq> None)"

text \<open>\<open>s.replace(old, new)\<close>: the occurrences of \<open>old\<close> are replaced from the left,
  without overlap. For the empty \<open>old\<close> Python puts \<open>new\<close> around every character.\<close>

function replace_nonempty :: "string \<Rightarrow> string \<Rightarrow> string \<Rightarrow> string" where
  "replace_nonempty old new [] = []"
| "replace_nonempty old new (c # cs) =
     (if old \<noteq> [] \<and> starts_with old (c # cs)
      then new @ replace_nonempty old new (drop (length old - 1) cs)
      else c # replace_nonempty old new cs)"
  by pat_completeness auto
termination
  by (relation "measure (\<lambda>(old, new, s). length s)") auto

definition py_replace :: "string \<Rightarrow> string \<Rightarrow> string \<Rightarrow> string" where
  "py_replace old new s =
     (if old = [] then new @ concat (map (\<lambda>c. c # new) s) else replace_nonempty old new s)"

text \<open>\<open>re.search(r'wait\s+(\d+)', s)\<close>: the leftmost position where \<open>wait\<close>, at least
  one whitespace character and at least one digit follow each other; the group is the
  longest run of digits there.\<close>

definition match_wait_here :: "string \<Rightarrow> string option" where
  "match_wait_here s =
     (if starts_with ''wait'' s
      then (let r = drop 4 s;
                ds = takeWhile is_digit (dropWhile is_space r)
            in if takeWhile is_space r \<noteq> [] \<and> ds \<noteq> [] then Some ds else None)
      else None)"

fun search_wait :: "string \<Rightarrow> string option" where
  "search_wait [] = None"
| "search_wait (c # cs) =
     (case match_wait_here (c # cs) of Some ds \<Rightarrow> Some ds | None \<Rightarrow> search_wait cs)"

definition digit_value :: "char \<Rightarrow> nat" where
  "digit_value c = (case str_find [c] ''0123456789'' of Some d \<Rightarrow> d | None \<Rightarrow> 0)"

definition decimal_value :: "string \<Rightarrow> nat" where
  "decimal_value ds = foldl (\<lambda>acc c. 10 * acc + digit_value c) 0 ds"


section \<open>Errors and numbers\<close>

text \<open>The exceptions that can cross a method boundary on the paths modelled here.\<close>

datatype error = ValueError | OverflowError | AttributeError

text \<open>
  A coordinate returned by the vision service is a JSON number read by \<open>json.loads\<close>:
  an \<open>int\<close> (\<open>Whole\<close>; a JSON boolean behaves as 0 or 1), or a \<open>float\<close>, which is a
  double (\<open>Finite\<close>, with its exact value), \<open>NaN\<close>, \<open>Infinity\<close> or \<open>-Infinity\<close>.
\<close>

datatype pyfloat = Whole int | Finite real | NaN | PosInf | NegInf

text \<open>\<open>bit_length n\<close> is \<open>n.bit_length()\<close>; for \<open>r > 0\<close>, \<open>binade r\<close> is the exponent
  \<open>e\<close> with \<open>2^e \<le> r < 2^(e+1)\<close>; \<open>scale2 r k\<close> is \<open>r * 2^k\<close>.\<close>

function bit_length :: "nat \<Rightarrow> nat" where
  "bit_length n = (if n = 0 then 0 else Suc (bit_length (n div 2)))"
  by pat_completeness auto
termination
  by (relation "measure id") auto

definition binade :: "real \<Rightarrow> int" where
  "binade r =
     (if 1 \<le> r then int (bit_length (nat \<lfloor>r\<rfloor>)) - 1
      else - int (bit_length (nat (\<lceil>1 / r\<rceil> - 1))))"

definition scale2 :: "real \<Rightarrow> int \<Rightarrow> real" where
  "scale2 r k = (if 0 \<le> k then r * 2 ^ nat k else r / 2 ^ nat (- k))"

definition round_half_even :: "real \<Rightarrow> int" where
  "round_half_even x =
     (let f = \<lfloor>x\<rfloor>; d = x - of_int f
      in if d < 1 / 2 then f
         else if 1 / 2 < d then f + 1
         else if even f then f else f + 1)"

text \<open>
  The double nearest to a real number (IEEE 754 binary64, round to nearest, ties to
  even): 53 significant bits, the least exponent -1022, and an infinity from 2^1024 on.
  Every arithmetic operation on doubles returns the rounded exact result.
\<close>

definition round_double :: "real \<Rightarrow> pyfloat" where
  "round_double r =
     (if r = 0 then Finite 0
      else (let e = max (binade \<bar>r\<bar>) (- 1022);
                m = round_half_even (scale2 \<bar>r\<bar> (52 - e));
                v = scale2 (of_int m) (e - 52)
            in if 2 ^ 1024 \<le> v then (if 0 < r then PosInf else NegInf)
               else Finite (sgn r * v)))"

text \<open>The conversion of an \<open>int\<close> operand to a double raises when it overflows.\<close>

definition int_to_double :: "int \<Rightarrow> error + real" where
  "int_to_double n =
     (case round_double (of_int n) of Finite m \<Rightarrow> Inr m | other \<Rightarrow> Inl OverflowError)"

text \<open>\<open>v * n\<close> for an \<open>int\<close> \<open>n\<close>: exact for an \<open>int\<close> \<open>v\<close>; for a \<open>float\<close> \<open>v\<close> the
  operand \<open>n\<close> is converted and the product is the rounded exact product.\<close>

fun mul_int :: "pyfloat \<Rightarrow> int \<Rightarrow> error + pyfloat" where
  "mul_int (Whole i) n = Inr (Whole (i * n))"
| "mul_int (Finite r) n =
     (case int_to_double n of Inl e \<Rightarrow> Inl e | Inr m \<Rightarrow> Inr (round_double (r * m)))"
| "mul_int NaN n = (case int_to_double n of Inl e \<Rightarrow> Inl e | Inr m \<Rightarrow> Inr NaN)"
| "mul_int PosInf n =
     (case int_to_double n of
        Inl e \<Rightarrow> Inl e
      | Inr m \<Rightarrow> Inr (if m = 0 then NaN else if 0 < m then PosInf else NegInf))"
| "mul_int NegInf n =
     (case int_to_double n of
        Inl e \<Rightarrow> Inl e
      | Inr m \<Rightarrow> Inr (if m = 0 then NaN else if 0 < m then NegInf else PosInf))"

text \<open>\<open>int(v)\<close> truncates towards zero and raises on a value that is not finite.\<close>

fun py_int :: "pyfloat \<Rightarrow> error + int" where
  "py_int (Whole i) = Inr i"
| "py_int (Finite r) = Inr (if 0 \<le> r then \<lfloor>r\<rfloor> else \<lceil>r\<rceil>)"
| "py_int NaN = Inl ValueError"
| "py_int PosInf = Inl OverflowError"
| "py_int NegInf = Inl OverflowError"


section \<open>The statistics tracker (stats\_tracker.py)\<close>

record stats_tracker =
  moondream_query_calls :: int
  moondream_point_calls :: int
  moondream_reasoning_calls :: int
  actions_performed :: int
  successful_actions :: int
  failed_actions :: int
  auto_navigations :: int
  moondream_detections :: int
  uiautomator_detections :: int
  start_time :: "real option"
  end_time :: "real option"

definition init_stats :: stats_tracker where
  "init_stats = \<lparr>moondream_query_calls = 0, moondream_point_calls = 0,
     moondream_reasoning_calls = 0, actions_performed = 0, successful_actions = 0,
     failed_actions = 0, auto_navigations = 0, moondream_detections = 0,
     uiautomator_detections = 0, start_time = None, end_time = None\<rparr>"

definition start_test :: "real \<Rightarrow> stats_tracker \<Rightarrow> stats_tracker" where
  "start_test now st = st\<lparr>start_time := Some now\<rparr>"

definition end_test :: "real \<Rightarrow> stats_tracker \<Rightarrow> stats_tracker" where
  "end_test now st = st\<lparr>end_time := Some now\<rparr>"

definition record_query_call :: "stats_tracker \<Rightarrow> stats_tracker" where
  "record_query_call st = st\<lparr>moondream_query_calls := moondream_query_calls st + 1\<rparr>"

definition record_point_call :: "stats_tracker \<Rightarrow> stats_tracker" where
  "record_point_call st = st\<lparr>moondream_point_calls := moondream_point_calls st + 1\<rparr>"

definition record_reasoning_call :: "stats_tracker \<Rightarrow> stats_tracker" where
  "record_reasoning_call st =
     st\<lparr>moondream_reasoning_calls := moondream_reasoning_calls st + 1\<rparr>"

definition record_action :: "bool \<Rightarrow> stats_tracker \<Rightarrow> stats_tracker" where
  "record_action success st =
     (let st1 = st\<lparr>actions_performed := actions_performed st + 1\<rparr>
      in if success then st1\<lparr>successful_actions := successful_actions st1 + 1\<rparr>
         else st1\<lparr>failed_actions := failed_actions st1 + 1\<rparr>)"

definition record_navigation :: "stats_tracker \<Rightarrow> stats_tracker" where
  "record_navigation st = st\<lparr>auto_navigations := auto_navigations st + 1\<rparr>"

definition record_detection :: "string \<Rightarrow> stats_tracker \<Rightarrow> stats_tracker" where
  "record_detection source st =
     (if source = ''moondream''
      then st\<lparr>moondream_detections := moondream_detections st + 1\<rparr>
      else if source = ''uiautomator''
      then st\<lparr>uiautomator_detections := uiautomator_detections st + 1\<rparr>
      else st)"

text \<open>The counters of \<open>get_summary\<close>. Its rounded floating-point entries (success rate,
  detection percentage, duration) are left out.\<close>

record summary =
  actions_total :: int
  actions_successful :: int
  actions_failed :: int
  api_moondream_query :: int
  api_moondream_point :: int
  api_moondream_reasoning :: int
  api_total :: int
  detection_moondream :: int
  detection_uiautomator :: int
  detection_total :: int
  navigation_auto_navigations :: int

definition get_total_api_calls :: "stats_tracker \<Rightarrow> int" where
  "get_total_api_calls st = moondream_query_calls st + moondream_point_calls st"

definition get_total_detections :: "stats_tracker \<Rightarrow> int" where
  "get_total_detections st = moondream_detections st + uiautomator_detections st"

definition get_summary :: "stats_tracker \<Rightarrow> summary" where
  "get_summary st =
     \<lparr>actions_total = actions_performed st, actions_successful = successful_actions st,
      actions_failed = failed_actions st,
      api_moondream_query = moondream_query_calls st,
      api_moondream_point = moondream_point_calls st,
      api_moondream_reasoning = moondream_reasoning_calls st,
      api_total = get_total_api_calls st,
      detection_moondream = moondream_detections st,
      detection_uiautomator = uiautomator_detections st,
      detection_total = get_total_detections st,
      navigation_auto_navigations = auto_navigations st\<rparr>"


section \<open>The outside world\<close>

text \<open>
  The device driver, the clock and the vision service are outside the program. Each is
  a function of an abstract world \<open>'w\<close> that returns its outcome and the next world. For
  a driver call and for \<open>time.sleep\<close> the outcome is whether the call returned without
  raising.

  One HTTP attempt of the vision client is the body of its \<open>try\<close> block: it raises
  before the call is counted (while the image is prepared), raises after it is counted
  (the request, the decoding or the formatting of the answer), or returns.
\<close>

record point =
  point_x :: pyfloat
  point_y :: pyfloat

datatype point_outcome = PointRaisedEarly | PointRaisedLate | PointReturned "point option"

text \<open>The value stored under \<open>answer\<close> in a response: a string, or any other JSON value,
  of which only the truth value matters.\<close>

datatype pyval = PyStr string | PyOther bool

datatype query_outcome = QueryRaisedEarly | QueryRaisedLate | QueryReturned pyval

text \<open>The question of \<open>get_navigation_suggestion\<close> is a fixed template around the goal.\<close>

datatype question = NavigationQuestion string

record 'w env =
  u2_screenshot :: "string \<Rightarrow> 'w \<Rightarrow> bool \<times> 'w"
  u2_click :: "int \<Rightarrow> int \<Rightarrow> 'w \<Rightarrow> bool \<times> 'w"
  u2_send_keys :: "string \<Rightarrow> 'w \<Rightarrow> bool \<times> 'w"
  u2_swipe :: "int \<Rightarrow> int \<Rightarrow> int \<Rightarrow> int \<Rightarrow> real \<Rightarrow> 'w \<Rightarrow> bool \<times> 'w"
  u2_press :: "string \<Rightarrow> 'w \<Rightarrow> bool \<times> 'w"
  time_sleep :: "real \<Rightarrow> 'w \<Rightarrow> bool \<times> 'w"
  time_time :: "'w \<Rightarrow> real \<times> 'w"
  point_request :: "string \<Rightarrow> string \<Rightarrow> 'w \<Rightarrow> point_outcome \<times> 'w"
  query_request :: "string \<Rightarrow> question \<Rightarrow> 'w \<Rightarrow> query_outcome \<times> 'w"

text \<open>The log of a run: the calls that reach the driver and the clock, the calls of
  \<open>ScreenParser.locate\<close> made by the agent, and the two progress lines \<open>run_test_case\<close>
  prints for each step.\<close>

datatype event =
    Screenshot string
  | Click int int
  | SendKeys string
  | Swipe int int int int real
  | Press string
  | Sleep real
  | LocateCall string string
  | StepBegin int string
  | StepEnd int bool

record 'w state =
  world :: 'w
  stats :: stats_tracker
  trace :: "event list"

definition emit :: "event \<Rightarrow> 'w state \<Rightarrow> 'w state" where
  "emit e s = s\<lparr>trace := trace s @ [e]\<rparr>"

text \<open>A call to the outside: it is logged, and the world moves on.\<close>

definition outside :: "event \<Rightarrow> ('w \<Rightarrow> 'a \<times> 'w) \<Rightarrow> 'w state \<Rightarrow> 'a \<times> 'w state" where
  "outside e f s = (case f (world s) of (r, w) \<Rightarrow> (r, emit e (s\<lparr>world := w\<rparr>)))"

text \<open>\<open>time.sleep\<close> of a small constant, which does not raise.\<close>

definition pause :: "'w env \<Rightarrow> real \<Rightarrow> 'w state \<Rightarrow> 'w state" where
  "pause env seconds s = snd (outside (Sleep seconds) (time_sleep env seconds) s)"


section \<open>The device controller (device\_controller.py)\<close>

record device_controller =
  screen_width :: int
  screen_height :: int

definition capture_screen :: "'w env \<Rightarrow> string \<Rightarrow> 'w state \<Rightarrow> bool \<times> 'w state" where
  "capture_screen env save_path s = outside (Screenshot save_path) (u2_screenshot env save_path) s"

definition click :: "'w env \<Rightarrow> int \<Rightarrow> int \<Rightarrow> 'w state \<Rightarrow> bool \<times> 'w state" where
  "click env x y s = outside (Click x y) (u2_click env x y) s"

definition type_text :: "'w env \<Rightarrow> string \<Rightarrow> 'w state \<Rightarrow> bool \<times> 'w state" where
  "type_text env text s = outside (SendKeys text) (u2_send_keys env text) s"

definition device_swipe ::
  "'w env \<Rightarrow> int \<Rightarrow> int \<Rightarrow> int \<Rightarrow> int \<Rightarrow> real \<Rightarrow> 'w state \<Rightarrow> bool \<times> 'w state" where
  "device_swipe env fx fy tx ty d s = outside (Swipe fx fy tx ty d) (u2_swipe env fx fy tx ty d) s"

definition scroll ::
  "'w env \<Rightarrow> device_controller \<Rightarrow> string \<Rightarrow> 'w state \<Rightarrow> bool \<times> 'w state" where
  "scroll env dc direction s =
     (let w = screen_width dc; h = screen_height dc
      in if direction = ''down''
         then device_swipe env (w div 2) (h * 2 div 3) (w div 2) (h div 3) (3 / 10) s
         else if direction = ''up''
         then device_swipe env (w div 2) (h div 3) (w div 2) (h * 2 div 3) (3 / 10) s
         else if direction = ''left''
         then device_swipe env (w * 2 div 3) (h div 2) (w div 3) (h div 2) (3 / 10) s
         else if direction = ''right''
         then device_swipe env (w div 3) (h div 2) (w * 2 div 3) (h div 2) (3 / 10) s
         else (True, s))"

definition swipe ::
  "'w env \<Rightarrow> device_controller \<Rightarrow> string \<Rightarrow> 'w state \<Rightarrow> bool \<times> 'w state" where
  "swipe env dc direction s = scroll env dc direction s"

definition press_key :: "'w env \<Rightarrow> string \<Rightarrow> 'w state \<Rightarrow> bool \<times> 'w state" where
  "press_key env key s = outside (Press key) (u2_press env key) s"

text \<open>\<open>wait\<close> does not catch: an exception of \<open>time.sleep\<close> leaves it. \<open>time.sleep\<close>
  refuses a duration that is not finite before it sleeps; for a finite one the outside
  tells whether it returned.\<close>

definition wait :: "'w env \<Rightarrow> pyfloat \<Rightarrow> 'w state \<Rightarrow> (error + unit) \<times> 'w state" where
  "wait env seconds s =
     (case seconds of
        Finite r \<Rightarrow>
          (case outside (Sleep r) (time_sleep env r) s of
             (returned, s') \<Rightarrow> (if returned then Inr () else Inl OverflowError, s'))
      | Whole i \<Rightarrow>
          (case outside (Sleep (of_int i)) (time_sleep env (of_int i)) s of
             (returned, s') \<Rightarrow> (if returned then Inr () else Inl OverflowError, s'))
      | NaN \<Rightarrow> (Inl ValueError, s)
      | PosInf \<Rightarrow> (Inl OverflowError, s)
      | NegInf \<Rightarrow> (Inl OverflowError, s))"

definition get_screen_size :: "device_controller \<Rightarrow> int \<times> int" where
  "get_screen_size dc = (screen_width dc, screen_height dc)"

text \<open>\<open>int(x * self.screen_width)\<close>: the product, then the truncation; either may
  raise.\<close>

definition to_pixel :: "pyfloat \<Rightarrow> int \<Rightarrow> error + int" where
  "to_pixel v n = (case mul_int v n of Inl e \<Rightarrow> Inl e | Inr product \<Rightarrow> py_int product)"

definition convert_normalized_to_pixels ::
  "device_controller \<Rightarrow> pyfloat \<Rightarrow> pyfloat \<Rightarrow> error + int \<times> int" where
  "convert_normalized_to_pixels dc x y =
     (case to_pixel x (screen_width dc) of
        Inl e \<Rightarrow> Inl e
      | Inr pixel_x \<Rightarrow>
          (case to_pixel y (screen_height dc) of
             Inl e \<Rightarrow> Inl e
           | Inr pixel_y \<Rightarrow> Inr (pixel_x, pixel_y)))"

fun extract_text_keywords :: "string list \<Rightarrow> string \<Rightarrow> string option" where
  "extract_text_keywords [] step = None"
| "extract_text_keywords (keyword # keywords) step =
     (case str_find keyword (lower step) of
        Some i \<Rightarrow>
          (let idx = i + length keyword;
               text = strip (drop idx step)
           in Some (strip (py_replace '' and send'' ''''
                             (py_replace '' and press enter'' '''' text))))
      | None \<Rightarrow> extract_text_keywords keywords step)"

definition extract_text :: "string \<Rightarrow> string option" where
  "extract_text step = extract_text_keywords [''type '', ''input '', ''enter '', ''text ''] step"

text \<open>\<open>float\<close> of a string of digits is the double nearest to the number they
  write.\<close>

definition extract_wait_time :: "string \<Rightarrow> pyfloat" where
  "extract_wait_time step =
     (case search_wait (lower step) of
        Some ds \<Rightarrow> round_double (real (decimal_value ds))
      | None \<Rightarrow> Finite 2)"

text \<open>\<open>perform_action\<close>. Its \<open>except\<close> clause turns an exception into \<open>False\<close>; the only
  call in its body that does not catch its own exceptions is \<open>wait\<close>.\<close>

definition perform_action ::
  "'w env \<Rightarrow> device_controller \<Rightarrow> string \<Rightarrow> (int \<times> int) option \<Rightarrow> 'w state
     \<Rightarrow> bool \<times> 'w state" where
  "perform_action env dc step pixel_coords s =
     (let step_lower = lower step
      in if contains ''type'' step_lower \<or> contains ''input'' step_lower
            \<or> contains ''enter'' step_lower
         then (case extract_text step of
                 Some text \<Rightarrow> if text \<noteq> [] then type_text env text s else (False, s)
               | None \<Rightarrow> (False, s))
         else if contains ''scroll'' step_lower \<or> contains ''swipe'' step_lower
         then (let direction =
                     (if contains ''up'' step_lower then ''up''
                      else if contains ''left'' step_lower then ''left''
                      else if contains ''right'' step_lower then ''right''
                      else ''down'')
               in scroll env dc direction s)
         else if contains ''press'' step_lower \<or> contains ''back'' step_lower
         then (if contains ''back'' step_lower then press_key env ''back'' s
               else if contains ''home'' step_lower then press_key env ''home'' s
               else if contains ''enter'' step_lower then press_key env ''enter'' s
               else (False, s))
         else if contains ''wait'' step_lower
         then (case wait env (extract_wait_time step) s of
                 (Inr u, s') \<Rightarrow> (True, s')
               | (Inl e, s') \<Rightarrow> (False, s'))
         else (case pixel_coords of
                 Some (x, y) \<Rightarrow> click env x y s
               | None \<Rightarrow> (False, s)))"

section \<open>The vision client (screen\_parser.py)\<close>

text \<open>\<open>locate\<close> and \<open>query\<close> catch every exception of an attempt and call themselves
  again, with \<open>retry + 1\<close>, while \<open>retry < 3\<close>.\<close>

function locate ::
  "'w env \<Rightarrow> string \<Rightarrow> string \<Rightarrow> int \<Rightarrow> 'w state \<Rightarrow> point option \<times> 'w state" where
  "locate env image_path element_description retry s =
     (case point_request env image_path element_description (world s) of
        (outcome, w) \<Rightarrow>
          (let s0 = s\<lparr>world := w\<rparr>;
               counted = s0\<lparr>stats := record_detection ''moondream''
                                         (record_point_call (stats s0))\<rparr>
           in case outcome of
                PointReturned r \<Rightarrow> (r, counted)
              | PointRaisedLate \<Rightarrow>
                  if retry < 3
                  then locate env image_path element_description (retry + 1)
                         (pause env 1 counted)
                  else (None, counted)
              | PointRaisedEarly \<Rightarrow>
                  if retry < 3
                  then locate env image_path element_description (retry + 1)
                         (pause env 1 s0)
                  else (None, s0)))"
  by pat_completeness auto
termination
  by (relation "measure (\<lambda>(env, image_path, element_description, retry, s). nat (3 - retry))")
     auto

function query ::
  "'w env \<Rightarrow> string \<Rightarrow> question \<Rightarrow> int \<Rightarrow> 'w state \<Rightarrow> pyval option \<times> 'w state" where
  "query env image_path question retry s =
     (case query_request env image_path question (world s) of
        (outcome, w) \<Rightarrow>
          (let s0 = s\<lparr>world := w\<rparr>;
               counted = s0\<lparr>stats := record_query_call (stats s0)\<rparr>
           in case outcome of
                QueryReturned answer \<Rightarrow> (Some answer, counted)
              | QueryRaisedLate \<Rightarrow>
                  if retry < 3
                  then query env image_path question (retry + 1) (pause env 1 counted)
                  else (None, counted)
              | QueryRaisedEarly \<Rightarrow>
                  if retry < 3
                  then query env image_path question (retry + 1) (pause env 1 s0)
                  else (None, s0)))"
  by pat_completeness auto
termination
  by (relation "measure (\<lambda>(env, image_path, question, retry, s). nat (3 - retry))") auto

fun truthy :: "pyval \<Rightarrow> bool" where
  "truthy (PyStr a) = (a \<noteq> [])"
| "truthy (PyOther b) = b"

text \<open>\<open>get_navigation_suggestion\<close>: \<open>answer.strip()\<close> raises when the answer is not a
  string.\<close>

definition get_navigation_suggestion ::
  "'w env \<Rightarrow> string \<Rightarrow> string \<Rightarrow> 'w state \<Rightarrow> (error + string option) \<times> 'w state" where
  "get_navigation_suggestion env image_path goal s =
     (case query env image_path (NavigationQuestion goal) 1 s of
        (None, s1) \<Rightarrow> (Inr None, s1)
      | (Some answer, s1) \<Rightarrow>
          if truthy answer
          then (let s2 = s1\<lparr>stats := record_reasoning_call (stats s1)\<rparr>
                in case answer of
                     PyOther b \<Rightarrow> (Inl AttributeError, s2)
                   | PyStr a \<Rightarrow>
                       (let action = lower (strip a)
                        in if list_ex (\<lambda>cmd. contains cmd action)
                                [''scroll'', ''click'', ''press'', ''swipe'', ''not possible'']
                           then (Inr (Some action), s2)
                           else (Inr None, s2)))
          else (Inr None, s1))"


section \<open>The orchestrator (vision\_agent.py)\<close>

record vision_agent =
  intelligent_mode :: bool
  screenshot_path :: string
  device :: device_controller

text \<open>The agent's call \<open>self.vision.locate(self.screenshot_path, step)\<close>, logged.\<close>

definition vision_locate ::
  "vision_agent \<Rightarrow> 'w env \<Rightarrow> string \<Rightarrow> 'w state \<Rightarrow> point option \<times> 'w state" where
  "vision_locate agent env step s =
     locate env (screenshot_path agent) step 1 (emit (LocateCall (screenshot_path agent) step) s)"

definition basic_locate ::
  "vision_agent \<Rightarrow> 'w env \<Rightarrow> string \<Rightarrow> 'w state \<Rightarrow> point option \<times> 'w state" where
  "basic_locate agent env step s = vision_locate agent env step s"

text \<open>The loop \<open>for attempt in range(max_retries)\<close> of \<open>_intelligent_locate\<close>, from
  \<open>attempt\<close> on. Leaving the loop, by \<open>break\<close> or at its end, returns \<open>None\<close>.\<close>

function intelligent_locate_loop ::
  "vision_agent \<Rightarrow> 'w env \<Rightarrow> string \<Rightarrow> int \<Rightarrow> int \<Rightarrow> 'w state
     \<Rightarrow> (error + point option) \<times> 'w state" where
  "intelligent_locate_loop agent env step max_retries attempt s =
     (if attempt < max_retries
      then (case vision_locate agent env step s of
              (Some coords, s1) \<Rightarrow> (Inr (Some coords), s1)
            | (None, s1) \<Rightarrow>
                if attempt < max_retries - 1
                then (case get_navigation_suggestion env (screenshot_path agent) step s1 of
                        (Inl e, s2) \<Rightarrow> (Inl e, s2)
                      | (Inr None, s2) \<Rightarrow> (Inr None, s2)
                      | (Inr (Some action), s2) \<Rightarrow>
                          if action \<noteq> [] \<and> \<not> contains ''not possible'' action
                          then (case perform_action env (device agent) action None
                                       (s2\<lparr>stats := record_navigation (stats s2)\<rparr>) of
                                  (True, s3) \<Rightarrow>
                                    intelligent_locate_loop agent env step max_retries
                                      (attempt + 1)
                                      (snd (capture_screen env (screenshot_path agent)
                                              (pause env 1 s3)))
                                | (False, s3) \<Rightarrow>
                                    intelligent_locate_loop agent env step max_retries
                                      (attempt + 1) s3)
                          else (Inr None, s2))
                else intelligent_locate_loop agent env step max_retries (attempt + 1) s1)
      else (Inr None, s))"
  by pat_completeness auto
termination
  by (relation "measure (\<lambda>(agent, env, step, max_retries, attempt, s).
                  nat (max_retries - attempt))") auto

definition intelligent_locate ::
  "vision_agent \<Rightarrow> 'w env \<Rightarrow> string \<Rightarrow> int \<Rightarrow> 'w state
     \<Rightarrow> (error + point option) \<times> 'w state" where
  "intelligent_locate agent env step max_retries s =
     intelligent_locate_loop agent env step max_retries 0 s"

text \<open>Steps 3 and 4 of \<open>_execute_step\<close>: convert, perform, record.\<close>

definition perform_and_record ::
  "vision_agent \<Rightarrow> 'w env \<Rightarrow> string \<Rightarrow> point option \<Rightarrow> 'w state
     \<Rightarrow> (error + bool) \<times> 'w state" where
  "perform_and_record agent env step coords s =
     (case (case coords of
              None \<Rightarrow> Inr None
            | Some c \<Rightarrow>
                map_sum id Some
                  (convert_normalized_to_pixels (device agent) (point_x c) (point_y c))) of
        Inl e \<Rightarrow> (Inl e, s)
      | Inr pixel_coords \<Rightarrow>
          (case perform_action env (device agent) step pixel_coords s of
             (success, s1) \<Rightarrow> (Inr success, s1\<lparr>stats := record_action success (stats s1)\<rparr>)))"

text \<open>The body of the \<open>try\<close> block of \<open>_execute_step\<close>.\<close>

definition execute_step_body ::
  "vision_agent \<Rightarrow> 'w env \<Rightarrow> string \<Rightarrow> 'w state \<Rightarrow> (error + bool) \<times> 'w state" where
  "execute_step_body agent env step s =
     (case capture_screen env (screenshot_path agent) s of
        (False, s1) \<Rightarrow> (Inr False, s1)
      | (True, s1) \<Rightarrow>
          (let step_lower = lower step
           in if list_ex (\<lambda>cmd. contains cmd step_lower)
                   [''scroll'', ''swipe'', ''back'', ''home'', ''wait'']
              then perform_and_record agent env step None s1
              else (case (if intelligent_mode agent
                          then intelligent_locate agent env step 3 s1
                          else (case basic_locate agent env step s1 of
                                  (coords, s2) \<Rightarrow> (Inr coords, s2))) of
                      (Inl e, s2) \<Rightarrow> (Inl e, s2)
                    | (Inr coords, s2) \<Rightarrow>
                        if coords = None \<and> \<not> contains ''type'' step_lower
                        then (Inr False, s2\<lparr>stats := record_action False (stats s2)\<rparr>)
                        else perform_and_record agent env step coords s2)))"

definition execute_step ::
  "vision_agent \<Rightarrow> 'w env \<Rightarrow> string \<Rightarrow> 'w state \<Rightarrow> bool \<times> 'w state" where
  "execute_step agent env step s =
     (case execute_step_body agent env step s of
        (Inr success, s1) \<Rightarrow> (success, s1)
      | (Inl e, s1) \<Rightarrow> (False, s1\<lparr>stats := record_action False (stats s1)\<rparr>))"

record test_json =
  app_name :: "string option"
  steps :: "string list option"

record run_result =
  status :: string
  completed_steps :: int
  total_steps :: int
  failed_step :: "string option"
  statistics :: summary

text \<open>The loop \<open>for idx, step in enumerate(steps, 1)\<close> of \<open>run_test_case\<close>; it returns
  \<open>completed_steps\<close> and \<open>failed_step\<close>.\<close>

fun run_steps ::
  "vision_agent \<Rightarrow> 'w env \<Rightarrow> int \<Rightarrow> string list \<Rightarrow> int \<Rightarrow> 'w state
     \<Rightarrow> (int \<times> string option) \<times> 'w state" where
  "run_steps agent env idx [] completed s = ((completed, None), s)"
| "run_steps agent env idx (step # rest) completed s =
     (case execute_step agent env step (emit (StepBegin idx step) s) of
        (True, s1) \<Rightarrow>
          run_steps agent env (idx + 1) rest (completed + 1)
            (pause env (1 / 2) (emit (StepEnd idx True) s1))
      | (False, s1) \<Rightarrow> ((completed, Some step), emit (StepEnd idx False) s1))"

definition mark_start :: "'w env \<Rightarrow> 'w state \<Rightarrow> 'w state" where
  "mark_start env s =
     (case time_time env (world s) of
        (now, w) \<Rightarrow> s\<lparr>world := w, stats := start_test now (stats s)\<rparr>)"

definition mark_end :: "'w env \<Rightarrow> 'w state \<Rightarrow> 'w state" where
  "mark_end env s =
     (case time_time env (world s) of
        (now, w) \<Rightarrow> s\<lparr>world := w, stats := end_test now (stats s)\<rparr>)"

definition run_test_case ::
  "vision_agent \<Rightarrow> 'w env \<Rightarrow> test_json \<Rightarrow> 'w state \<Rightarrow> run_result \<times> 'w state" where
  "run_test_case agent env test s =
     (let step_list = (case steps test of Some l \<Rightarrow> l | None \<Rightarrow> [])
      in case run_steps agent env 1 step_list 0 (mark_start env s) of
           ((completed, failed), s1) \<Rightarrow>
             (let s2 = mark_end env s1
              in (\<lparr>status = (if completed = int (length step_list)
                               then ''success'' else ''failed''),
                   completed_steps = completed,
                   total_steps = int (length step_list),
                   failed_step = failed,
                   statistics = get_summary (stats s2)\<rparr>, s2)))"

section \<open>Observations on a run\<close>

fun is_locate_call :: "event \<Rightarrow> bool" where
  "is_locate_call (LocateCall image_path description) = True"
| "is_locate_call e = False"

definition locate_calls :: "event list \<Rightarrow> nat" where
  "locate_calls tr = length (filter is_locate_call tr)"

fun is_step_event :: "event \<Rightarrow> bool" where
  "is_step_event (StepBegin idx step) = True"
| "is_step_event (StepEnd idx success) = True"
| "is_step_event e = False"

definition step_events :: "event list \<Rightarrow> event list" where
  "step_events tr = filter is_step_event tr"

text \<open>The progress lines of steps that are begun and completed, numbered from \<open>idx\<close>.\<close>

fun completed_log :: "int \<Rightarrow> string list \<Rightarrow> event list" where
  "completed_log idx [] = []"
| "completed_log idx (step # rest) =
     StepBegin idx step # StepEnd idx True # completed_log (idx + 1) rest"

text \<open>
  The executions of the steps of a list, in the order and in the states of the loop of
  \<open>run_test_case\<close>, numbered from \<open>idx\<close>, for as long as they return \<open>True\<close>: step
  \<open>i\<close> (counted from 0) is executed after its "begin" line in the state
  \<open>state_before \<dots> i\<close>; \<open>step_returns \<dots> i\<close> is what that execution returns; after a
  \<open>True\<close> the "completed" line is printed and the run sleeps for half a second, which
  gives \<open>state_before \<dots> (i + 1)\<close>.
\<close>

fun state_before ::
  "vision_agent \<Rightarrow> 'w env \<Rightarrow> int \<Rightarrow> string list \<Rightarrow> 'w state \<Rightarrow> nat \<Rightarrow> 'w state" where
  "state_before agent env idx l s 0 = s"
| "state_before agent env idx l s (Suc i) =
     pause env (1 / 2)
       (emit (StepEnd (idx + int i) True)
          (snd (execute_step agent env (l ! i)
                  (emit (StepBegin (idx + int i) (l ! i))
                     (state_before agent env idx l s i)))))"

definition step_returns ::
  "vision_agent \<Rightarrow> 'w env \<Rightarrow> int \<Rightarrow> string list \<Rightarrow> 'w state \<Rightarrow> nat \<Rightarrow> bool" where
  "step_returns agent env idx l s i =
     fst (execute_step agent env (l ! i)
            (emit (StepBegin (idx + int i) (l ! i)) (state_before agent env idx l s i)))"

definition stats_consistent :: "stats_tracker \<Rightarrow> bool" where
  "stats_consistent st = (successful_actions st + failed_actions st = actions_performed st)"

definition counters_le :: "stats_tracker \<Rightarrow> stats_tracker \<Rightarrow> bool" where
  "counters_le st st' =
     (actions_performed st \<le> actions_performed st'
      \<and> successful_actions st \<le> successful_actions st'
      \<and> failed_actions st \<le> failed_actions st')"

text \<open>An operation keeps the tracker sound when, from a consistent tracker, it leaves a
  consistent one whose action counters are not smaller.\<close>

definition keeps_stats :: "('w state \<Rightarrow> 'a \<times> 'w state) \<Rightarrow> bool" where
  "keeps_stats f =
     (\<forall>s. stats_consistent (stats s) \<longrightarrow>
        stats_consistent (stats (snd (f s))) \<and> counters_le (stats s) (stats (snd (f s))))"



definition action_counters :: "stats_tracker \<Rightarrow> int \<times> int \<times> int" where
  "action_counters st = (actions_performed st, successful_actions st, failed_actions st)"

text \<open>\<open>located n s s'\<close>: between \<open>s\<close> and \<open>s'\<close> the agent called \<open>locate\<close> \<open>n\<close> times, no
  progress line was printed and no action was recorded. \<open>silent\<close> is the case of no call.\<close>

definition located :: "nat \<Rightarrow> 'w state \<Rightarrow> 'w state \<Rightarrow> bool" where
  "located n s s' =
     (step_events (trace s') = step_events (trace s)
      \<and> locate_calls (trace s') = locate_calls (trace s) + n
      \<and> action_counters (stats s') = action_counters (stats s))"

definition silent :: "'w state \<Rightarrow> 'w state \<Rightarrow> bool" where
  "silent s s' = located 0 s s'"


section \<open>Example environments\<close>

text \<open>A world without state: every driver call and every sleep returns \<open>ok\<close>, the clock
  shows 0, the vision service finds no element and answers every question with
  \<open>answer\<close>.\<close>

definition fixed_env :: "bool \<Rightarrow> pyval \<Rightarrow> unit env" where
  "fixed_env ok answer =
     \<lparr>u2_screenshot = (\<lambda>save_path w. (ok, w)),
      u2_click = (\<lambda>x y w. (ok, w)),
      u2_send_keys = (\<lambda>text w. (ok, w)),
      u2_swipe = (\<lambda>fx fy tx ty d w. (ok, w)),
      u2_press = (\<lambda>key w. (ok, w)),
      time_sleep = (\<lambda>seconds w. (ok, w)),
      time_time = (\<lambda>w. (0, w)),
      point_request = (\<lambda>image_path description w. (PointReturned None, w)),
      query_request = (\<lambda>image_path question w. (QueryReturned answer, w))\<rparr>"

definition example_agent :: vision_agent where
  "example_agent =
     \<lparr>intelligent_mode = True, screenshot_path = ''current_screen.png'',
      device = \<lparr>screen_width = 1080, screen_height = 2400\<rparr>\<rparr>"

definition initial_state :: "unit state" where
  "initial_state = \<lparr>world = (), stats = init_stats, trace = []\<rparr>"

definition example_test :: test_json where
  "example_test =
     \<lparr>app_name = Some ''Example'',
      steps = Some [''scroll down'', ''click nonexistent button'', ''wait 1'']\<rparr>"

definition non_visual_test :: test_json where
  "non_visual_test =
     \<lparr>app_name = None, steps = Some [''scroll down'', ''wait 1'', ''scroll up'']\<rparr>"


section \<open>Evaluation and unfolding\<close>

lemmas str_defs = lower_def lower_char_def upper_to_lower_def contains_def strip_def is_space_def py_replace_def

declare locate.simps [simp del] query.simps [simp del] intelligent_locate_loop.simps [simp del]
  bit_length.simps [simp del]


section \<open>Rounding to a double\<close>

lemma bit_length_bounds:
  "0 < n \<Longrightarrow> 2 ^ (bit_length n - 1) \<le> n \<and> n < 2 ^ bit_length n"
proof (induction n rule: bit_length.induct)
  case (1 n)
  show ?case
  proof (cases "n div 2 = 0")
    case True
    then have "n = 1" using "1.prems" by presburger
    then show ?thesis
      by (simp add: bit_length.simps [of "Suc 0"] bit_length.simps [of 0])
  next
    case False
    then have ih: "2 ^ (bit_length (n div 2) - 1) \<le> n div 2" "n div 2 < 2 ^ bit_length (n div 2)"
      using "1.IH" "1.prems" by simp_all
    have pos: "0 < bit_length (n div 2)"
      using False by (subst bit_length.simps) simp
    have bl: "bit_length n = Suc (bit_length (n div 2))"
      using "1.prems" by (subst bit_length.simps) simp
    have "(2::nat) ^ bit_length (n div 2) = 2 * 2 ^ (bit_length (n div 2) - 1)"
      using pos by (cases "bit_length (n div 2)") simp_all
    then have lo: "2 ^ bit_length (n div 2) \<le> n" using ih(1) by presburger
    have hi: "n < 2 * 2 ^ bit_length (n div 2)" using ih(2) by presburger
    show ?thesis using lo hi bl by simp
  qed
qed


lemma round_half_even_between:
  assumes "of_int a \<le> x" and "x \<le> of_int b"
  shows "a \<le> round_half_even x \<and> round_half_even x \<le> b"
proof -
  let ?f = "\<lfloor>x\<rfloor>"
  have lo: "a \<le> ?f" using assms(1) by (simp add: le_floor_iff)
  have "?f \<le> \<lfloor>of_int b :: real\<rfloor>" by (rule floor_mono) (rule assms(2))
  then have hi: "?f \<le> b" by simp
  have up: "?f + 1 \<le> b" if "1 / 2 \<le> x - of_int ?f"
  proof -
    have "of_int ?f < x" using that by linarith
    then have "of_int ?f < (of_int b :: real)" using assms(2) by linarith
    then show ?thesis by simp
  qed
  show ?thesis
    using lo hi up by (auto simp: round_half_even_def Let_def)
qed

lemma binade_le_52:
  assumes "0 < r" and "r < 2 ^ 53"
  shows "binade r \<le> 52"
proof (cases "1 \<le> r")
  case True
  let ?n = "nat \<lfloor>r\<rfloor>"
  have n: "0 < ?n" using True by simp
  have "real ?n \<le> r" using True by simp
  then have "real ?n < 2 ^ 53" using assms(2) by linarith
  then have "?n < 2 ^ 53" by (metis of_nat_less_iff of_nat_numeral of_nat_power)
  moreover have "2 ^ (bit_length ?n - 1) \<le> ?n" using bit_length_bounds [OF n] by simp
  ultimately have lt: "(2::nat) ^ (bit_length ?n - 1) < 2 ^ 53" by linarith
  have "bit_length ?n - 1 < 53" by (rule power_less_imp_less_exp [OF _ lt]) simp
  then show ?thesis using True by (simp add: binade_def)
next
  case False
  then show ?thesis by (simp add: binade_def)
qed

lemma round_double_between:
  assumes "0 \<le> a" and "of_int a \<le> r" and "r \<le> of_int b" and "b < 2 ^ 53"
  shows "\<exists>v. round_double r = Finite v \<and> of_int a \<le> v \<and> v \<le> of_int b"
proof (cases "r = 0")
  case True
  then show ?thesis using assms(2,3) by (simp add: round_double_def)
next
  case False
  then have pos: "0 < r" using assms(1,2) by (smt (verit) of_int_nonneg)
  have "r < 2 ^ 53"
  proof -
    have "(of_int b :: real) < of_int (2 ^ 53)" using assms(4) by (simp only: of_int_less_iff)
    then show ?thesis using assms(3) by simp
  qed
  then have e52: "max (binade r) (- 1022) \<le> 52" using binade_le_52 [OF pos] by simp
  define e where "e = max (binade r) (- 1022)"
  define j where "j = nat (52 - e)"
  have j: "52 - e = int j" using e52 by (simp add: j_def e_def)
  have s1: "scale2 r (52 - e) = r * 2 ^ j" by (simp add: scale2_def j)
  define m where "m = round_half_even (r * 2 ^ j)"
  have "of_int (a * 2 ^ j) \<le> r * 2 ^ j" "r * 2 ^ j \<le> of_int (b * 2 ^ j)"
    using assms(2,3) by simp_all
  from round_half_even_between [OF this]
  have m: "a * 2 ^ j \<le> m" "m \<le> b * 2 ^ j" by (simp_all add: m_def)
  have s2: "scale2 (of_int m) (e - 52) = of_int m / 2 ^ j"
  proof (cases "j = 0")
    case True
    then have "e - 52 = 0" using j by simp
    then show ?thesis using True by (simp add: scale2_def)
  next
    case False
    then have "\<not> 0 \<le> e - 52" "nat (- (e - 52)) = j" using j by linarith+
    then show ?thesis by (simp add: scale2_def)
  qed
  define v where "v = real_of_int m / 2 ^ j"
  have "real_of_int (a * 2 ^ j) \<le> real_of_int m" "real_of_int m \<le> real_of_int (b * 2 ^ j)"
    using m by (simp_all only: of_int_le_iff)
  then have va: "of_int a \<le> v" and vb: "v \<le> of_int b"
    by (simp_all add: v_def field_simps)
  have "(of_int b :: real) < 2 ^ 53"
  proof -
    have "(of_int b :: real) < of_int (2 ^ 53)" using assms(4) by (simp only: of_int_less_iff)
    then show ?thesis by simp
  qed
  moreover have "(2::real) ^ 53 \<le> 2 ^ 1024" by (rule power_increasing) simp_all
  ultimately have small: "\<not> 2 ^ 1024 \<le> v" using vb by linarith
  have "round_double r = Finite v"
    using False pos small s1 [unfolded e_def] s2 [unfolded e_def m_def]
    by (simp add: round_double_def Let_def v_def m_def abs_of_pos)
  then show ?thesis using va vb by blast
qed

lemma round_double_of_int:
  assumes "0 \<le> n" and "n < 2 ^ 53"
  shows "round_double (of_int n) = Finite (of_int n)"
  using round_double_between [of n "of_int n" n] assms by auto


section \<open>Operations that locate nothing and record nothing\<close>

lemma silent_refl: "silent s s"
  by (simp add: silent_def located_def)

lemma located_trans: "located m s s1 \<Longrightarrow> located n s1 s2 \<Longrightarrow> located (m + n) s s2"
  by (simp add: located_def)

lemma silent_trans: "silent s s1 \<Longrightarrow> silent s1 s2 \<Longrightarrow> silent s s2"
  by (simp add: silent_def located_def)

lemma silent_located: "silent s s1 \<Longrightarrow> located n s1 s2 \<Longrightarrow> located n s s2"
  by (simp add: silent_def located_def)

lemma located_silent: "located n s s1 \<Longrightarrow> silent s1 s2 \<Longrightarrow> located n s s2"
  by (simp add: silent_def located_def)

lemma silent_world: "silent s (s\<lparr>world := w\<rparr>)"
  by (simp add: silent_def located_def)

lemma silent_emit: "\<not> is_locate_call e \<Longrightarrow> \<not> is_step_event e \<Longrightarrow> silent s (emit e s)"
  by (simp add: silent_def located_def emit_def step_events_def locate_calls_def)

lemma silent_outside:
  "\<not> is_locate_call e \<Longrightarrow> \<not> is_step_event e \<Longrightarrow> silent s (snd (outside e f s))"
  by (simp add: silent_def located_def outside_def emit_def step_events_def locate_calls_def
           split: prod.splits)

lemma silent_stats:
  "action_counters st = action_counters (stats s) \<Longrightarrow> silent s (s\<lparr>stats := st\<rparr>)"
  by (simp add: silent_def located_def)

lemma counters_other [simp]:
  "action_counters (record_query_call st) = action_counters st"
  "action_counters (record_point_call st) = action_counters st"
  "action_counters (record_reasoning_call st) = action_counters st"
  "action_counters (record_navigation st) = action_counters st"
  "action_counters (record_detection source st) = action_counters st"
  "action_counters (start_test now st) = action_counters st"
  "action_counters (end_test now st) = action_counters st"
  by (simp_all add: action_counters_def record_query_call_def record_point_call_def
        record_reasoning_call_def record_navigation_def record_detection_def
        start_test_def end_test_def)

lemma silent_pause: "silent s (pause env seconds s)"
  by (simp add: pause_def silent_outside)

lemma silent_capture_screen: "silent s (snd (capture_screen env p s))"
  by (simp add: capture_screen_def silent_outside)

lemma silent_click: "silent s (snd (click env x y s))"
  by (simp add: click_def silent_outside)

lemma silent_type_text: "silent s (snd (type_text env text s))"
  by (simp add: type_text_def silent_outside)

lemma silent_scroll: "silent s (snd (scroll env dc direction s))"
  by (simp add: scroll_def device_swipe_def silent_outside silent_refl Let_def)

lemma silent_press_key: "silent s (snd (press_key env key s))"
  by (simp add: press_key_def silent_outside)

lemma silent_wait: "silent s (snd (wait env seconds s))"
proof (cases seconds)
  case (Whole i)
  then show ?thesis
    using silent_outside [of "Sleep (of_int i)" s "time_sleep env (of_int i)"]
    by (simp add: wait_def split_beta)
next
  case (Finite r)
  then show ?thesis
    using silent_outside [of "Sleep r" s "time_sleep env r"]
    by (simp add: wait_def split_beta)
qed (simp_all add: wait_def silent_refl)

lemma silent_perform_action: "silent s (snd (perform_action env dc step pixel_coords s))"
  using silent_wait [of s env "extract_wait_time step"]
  by (auto simp: perform_action_def Let_def silent_refl silent_type_text silent_scroll
        silent_press_key silent_click
        split: option.splits prod.splits sum.splits)

lemma silent_locate: "silent s (snd (locate env image_path element_description retry s))"
proof (induction env image_path element_description retry s rule: locate.induct)
  case (1 env image_path element_description retry s)
  obtain outcome w where pr:
    "point_request env image_path element_description (world s) = (outcome, w)"
    by (cases "point_request env image_path element_description (world s)")
  let ?s0 = "s\<lparr>world := w\<rparr>"
  let ?counted = "?s0\<lparr>stats := record_detection ''moondream'' (record_point_call (stats ?s0))\<rparr>"
  have s0: "silent s ?s0" by (rule silent_world)
  have counted: "silent s ?counted"
    by (rule silent_trans [OF s0]) (simp add: silent_stats)
  show ?case
  proof (cases outcome)
    case PointRaisedEarly
    show ?thesis
    proof (cases "retry < 3")
      case True
      have "silent (pause env 1 ?s0)
              (snd (locate env image_path element_description (retry + 1) (pause env 1 ?s0)))"
        using "1.IH"(1) [OF pr [symmetric] refl refl PointRaisedEarly True] .
      then have "silent s (snd (locate env image_path element_description (retry + 1) (pause env 1 ?s0)))"
        using s0 silent_pause silent_trans by blast
      then show ?thesis
        using pr PointRaisedEarly True by (subst locate.simps) simp
    next
      case False
      then show ?thesis
        using pr PointRaisedEarly s0 by (subst locate.simps) simp
    qed
  next
    case PointRaisedLate
    show ?thesis
    proof (cases "retry < 3")
      case True
      have "silent (pause env 1 ?counted)
              (snd (locate env image_path element_description (retry + 1) (pause env 1 ?counted)))"
        using "1.IH"(2) [OF pr [symmetric] refl refl PointRaisedLate True] .
      then have "silent s (snd (locate env image_path element_description (retry + 1) (pause env 1 ?counted)))"
        using counted silent_pause silent_trans by blast
      then show ?thesis
        using pr PointRaisedLate True by (subst locate.simps) simp
    next
      case False
      then show ?thesis
        using pr PointRaisedLate counted by (subst locate.simps) simp
    qed
  next
    case (PointReturned r)
    then show ?thesis
      using pr counted by (subst locate.simps) simp
  qed
qed

lemma silent_query: "silent s (snd (query env image_path question retry s))"
proof (induction env image_path question retry s rule: query.induct)
  case (1 env image_path question retry s)
  obtain outcome w where qr: "query_request env image_path question (world s) = (outcome, w)"
    by (cases "query_request env image_path question (world s)")
  let ?s0 = "s\<lparr>world := w\<rparr>"
  let ?counted = "?s0\<lparr>stats := record_query_call (stats ?s0)\<rparr>"
  have s0: "silent s ?s0" by (rule silent_world)
  have counted: "silent s ?counted"
    by (rule silent_trans [OF s0]) (simp add: silent_stats)
  show ?case
  proof (cases outcome)
    case QueryRaisedEarly
    show ?thesis
    proof (cases "retry < 3")
      case True
      have "silent (pause env 1 ?s0)
              (snd (query env image_path question (retry + 1) (pause env 1 ?s0)))"
        using "1.IH"(1) [OF qr [symmetric] refl refl QueryRaisedEarly True] .
      then have "silent s (snd (query env image_path question (retry + 1) (pause env 1 ?s0)))"
        using s0 silent_pause silent_trans by blast
      then show ?thesis
        using qr QueryRaisedEarly True by (subst query.simps) simp
    next
      case False
      then show ?thesis
        using qr QueryRaisedEarly s0 by (subst query.simps) simp
    qed
  next
    case QueryRaisedLate
    show ?thesis
    proof (cases "retry < 3")
      case True
      have "silent (pause env 1 ?counted)
              (snd (query env image_path question (retry + 1) (pause env 1 ?counted)))"
        using "1.IH"(2) [OF qr [symmetric] refl refl QueryRaisedLate True] .
      then have "silent s (snd (query env image_path question (retry + 1) (pause env 1 ?counted)))"
        using counted silent_pause silent_trans by blast
      then show ?thesis
        using qr QueryRaisedLate True by (subst query.simps) simp
    next
      case False
      then show ?thesis
        using qr QueryRaisedLate counted by (subst query.simps) simp
    qed
  next
    case (QueryReturned answer)
    then show ?thesis
      using qr counted by (subst query.simps) simp
  qed
qed

lemma silent_get_navigation_suggestion:
  "silent s (snd (get_navigation_suggestion env image_path goal s))"
proof (cases "query env image_path (NavigationQuestion goal) 1 s")
  case (Pair answer s1)
  have s1: "silent s s1"
    using silent_query [of s env image_path "NavigationQuestion goal" 1] Pair by simp
  have s2: "silent s (s1\<lparr>stats := record_reasoning_call (stats s1)\<rparr>)"
    by (rule silent_trans [OF s1]) (simp add: silent_stats)
  show ?thesis
    using Pair s1 s2
    by (auto simp: get_navigation_suggestion_def Let_def split: option.splits pyval.splits)
qed

lemma located_vision_locate: "located 1 s (snd (vision_locate agent env step s))"
proof -
  let ?s0 = "emit (LocateCall (screenshot_path agent) step) s"
  have "located 1 s ?s0"
    by (simp add: located_def emit_def step_events_def locate_calls_def)
  moreover have "silent ?s0 (snd (locate env (screenshot_path agent) step 1 ?s0))"
    by (rule silent_locate)
  ultimately show ?thesis
    by (simp add: vision_locate_def located_silent)
qed

text \<open>One turn of the loop makes one call of \<open>locate\<close>; then the loop returns or goes on
  with the next attempt.\<close>

lemma loop_turn:
  assumes "attempt < max_retries"
  shows "\<exists>s'. located 1 s s'
           \<and> (intelligent_locate_loop agent env step max_retries attempt s
                = intelligent_locate_loop agent env step max_retries (attempt + 1) s'
              \<or> snd (intelligent_locate_loop agent env step max_retries attempt s) = s')"
proof (cases "vision_locate agent env step s")
  case (Pair c s1)
  have l1: "located 1 s s1"
    using located_vision_locate [of s agent env step] Pair by simp
  show ?thesis
  proof (cases c)
    case (Some coords)
    then have "snd (intelligent_locate_loop agent env step max_retries attempt s) = s1"
      using assms Pair by (subst intelligent_locate_loop.simps) simp
    then show ?thesis using l1 by blast
  next
    case None
    show ?thesis
    proof (cases "attempt < max_retries - 1")
      case False
      then have "intelligent_locate_loop agent env step max_retries attempt s
                 = intelligent_locate_loop agent env step max_retries (attempt + 1) s1"
        using assms Pair None by (subst intelligent_locate_loop.simps) simp
      then show ?thesis using l1 by blast
    next
      case True
      obtain a s2 where nav: "get_navigation_suggestion env (screenshot_path agent) step s1 = (a, s2)"
        by (cases "get_navigation_suggestion env (screenshot_path agent) step s1")
      have l2: "located 1 s s2"
        using silent_get_navigation_suggestion [of s1 env "screenshot_path agent" step] nav l1
        by (simp add: located_silent)
      let ?go = "\<exists>action. a = Inr (Some action) \<and> action \<noteq> [] \<and> \<not> contains ''not possible'' action"
      show ?thesis
      proof (cases ?go)
        case False
        then have "snd (intelligent_locate_loop agent env step max_retries attempt s) = s2"
          using assms Pair None True nav
          by (subst intelligent_locate_loop.simps) (auto split: sum.splits option.splits)
        then show ?thesis using l2 by blast
      next
        case go: True
        then obtain action where a: "a = Inr (Some action)"
          and ok: "action \<noteq> [] \<and> \<not> contains ''not possible'' action" by blast
        let ?s2' = "s2\<lparr>stats := record_navigation (stats s2)\<rparr>"
        obtain performed s3 where pa: "perform_action env (device agent) action None ?s2' = (performed, s3)"
          by (cases "perform_action env (device agent) action None ?s2'")
        have "silent s2 ?s2'" by (simp add: silent_stats)
        moreover have "silent ?s2' s3"
          using silent_perform_action [of ?s2' env "device agent" action None] pa by simp
        ultimately have l3: "located 1 s s3"
          using l2 located_silent by blast
        show ?thesis
        proof (cases performed)
          case False
          then have "intelligent_locate_loop agent env step max_retries attempt s
                     = intelligent_locate_loop agent env step max_retries (attempt + 1) s3"
            using assms Pair None True nav a ok pa
            by (subst intelligent_locate_loop.simps) simp
          then show ?thesis using l3 by blast
        next
          case yes: True
          let ?s4 = "snd (capture_screen env (screenshot_path agent) (pause env 1 s3))"
          have "silent s3 ?s4"
            using silent_pause silent_capture_screen silent_trans by blast
          then have l4: "located 1 s ?s4"
            using l3 located_silent by blast
          have "intelligent_locate_loop agent env step max_retries attempt s
                = intelligent_locate_loop agent env step max_retries (attempt + 1) ?s4"
            using assms Pair None True nav a ok pa yes
            by (subst intelligent_locate_loop.simps) simp
          then show ?thesis using l4 by blast
        qed
      qed
    qed
  qed
qed

lemma loop_located:
  "\<exists>n. n \<le> nat (max_retries - attempt) \<and> (attempt < max_retries \<longrightarrow> 1 \<le> n)
       \<and> located n s (snd (intelligent_locate_loop agent env step max_retries attempt s))"
proof (induction "nat (max_retries - attempt)" arbitrary: attempt s)
  case 0
  then have "\<not> attempt < max_retries" by simp
  then have "intelligent_locate_loop agent env step max_retries attempt s = (Inr None, s)"
    by (subst intelligent_locate_loop.simps) simp
  then have "located 0 s (snd (intelligent_locate_loop agent env step max_retries attempt s))"
    using silent_refl [of s] by (simp add: silent_def)
  then show ?case using \<open>\<not> attempt < max_retries\<close> by blast
next
  case (Suc k)
  then have lt: "attempt < max_retries" and k: "k = nat (max_retries - (attempt + 1))"
    by simp_all
  from loop_turn [OF lt, of s agent env step] obtain s' where l1: "located 1 s s'"
    and alt: "intelligent_locate_loop agent env step max_retries attempt s
                = intelligent_locate_loop agent env step max_retries (attempt + 1) s'
              \<or> snd (intelligent_locate_loop agent env step max_retries attempt s) = s'"
    by blast
  from alt show ?case
  proof
    assume go: "intelligent_locate_loop agent env step max_retries attempt s
                = intelligent_locate_loop agent env step max_retries (attempt + 1) s'"
    from Suc.hyps(1) [OF k, of s'] obtain n where n: "n \<le> nat (max_retries - (attempt + 1))"
      and ln: "located n s' (snd (intelligent_locate_loop agent env step max_retries (attempt + 1) s'))"
      by blast
    have "located (1 + n) s (snd (intelligent_locate_loop agent env step max_retries attempt s))"
      using located_trans [OF l1 ln] go by simp
    moreover have "1 + n \<le> nat (max_retries - attempt)" using n lt by linarith
    ultimately show ?thesis by (intro exI [of _ "1 + n"]) simp
  next
    assume "snd (intelligent_locate_loop agent env step max_retries attempt s) = s'"
    then have "located 1 s (snd (intelligent_locate_loop agent env step max_retries attempt s))"
      using l1 by simp
    moreover have "1 \<le> nat (max_retries - attempt)" using lt by linarith
    ultimately show ?thesis by (intro exI [of _ 1]) simp
  qed
qed


section \<open>The example environment\<close>

lemma fixed_env_locate:
  "fst (locate (fixed_env ok answer) image_path description retry s) = None"
  by (subst locate.simps) (simp add: fixed_env_def)

lemma fixed_env_vision_locate:
  "fst (vision_locate agent (fixed_env ok answer) step s) = None"
  by (simp add: vision_locate_def fixed_env_locate)

lemma fixed_env_query:
  "fst (query (fixed_env ok answer) image_path question retry s) = Some answer"
  by (subst query.simps) (simp add: fixed_env_def)

lemma fixed_env_not_possible:
  "fst (get_navigation_suggestion (fixed_env ok (PyStr ''not possible'')) image_path goal s)
     = Inr (Some ''not possible'')"
proof (cases "query (fixed_env ok (PyStr ''not possible'')) image_path (NavigationQuestion goal) 1 s")
  case (Pair a s1)
  then have "a = Some (PyStr ''not possible'')"
    using fixed_env_query [of ok "PyStr ''not possible''" image_path "NavigationQuestion goal" 1 s]
    by simp
  then show ?thesis
    using Pair by (simp add: get_navigation_suggestion_def str_defs)
qed

lemma fixed_env_scroll_down:
  "fst (get_navigation_suggestion (fixed_env ok (PyStr ''scroll down'')) image_path goal s)
     = Inr (Some ''scroll down'')"
proof (cases "query (fixed_env ok (PyStr ''scroll down'')) image_path (NavigationQuestion goal) 1 s")
  case (Pair a s1)
  then have "a = Some (PyStr ''scroll down'')"
    using fixed_env_query [of ok "PyStr ''scroll down''" image_path "NavigationQuestion goal" 1 s]
    by simp
  then show ?thesis
    using Pair by (simp add: get_navigation_suggestion_def str_defs)
qed

section \<open>The auto-navigation loop\<close>

lemma loop_break:
  assumes "attempt < max_retries - 1"
    and "vision_locate agent env step s0 = (None, s1)"
    and "get_navigation_suggestion env (screenshot_path agent) step s1 = (Inr suggestion, s2)"
    and "suggestion = None \<or> (\<exists>action. suggestion = Some action \<and> contains ''not possible'' action)"
  shows "intelligent_locate_loop agent env step max_retries attempt s0 = (Inr None, s2)"
  using assms by (subst intelligent_locate_loop.simps) auto

lemma loop_one_call:
  assumes none: "\<And>s'. fst (vision_locate agent env step s') = None"
    and np: "\<And>s'. fst (get_navigation_suggestion env (screenshot_path agent) step s')
                     = Inr (Some ''not possible'')"
    and pos: "1 \<le> max_retries"
  shows "fst (intelligent_locate agent env step max_retries s) = Inr None
         \<and> locate_calls (trace (snd (intelligent_locate agent env step max_retries s)))
             = locate_calls (trace s) + 1"
proof -
  obtain s1 where vl: "vision_locate agent env step s = (None, s1)"
    using none [of s] by (cases "vision_locate agent env step s") simp
  have l1: "located 1 s s1"
    using located_vision_locate [of s agent env step] vl by simp
  show ?thesis
  proof (cases "0 < max_retries - 1")
    case True
    obtain s2 where nav: "get_navigation_suggestion env (screenshot_path agent) step s1
                            = (Inr (Some ''not possible''), s2)"
      using np [of s1]
      by (cases "get_navigation_suggestion env (screenshot_path agent) step s1") simp
    have np_in: "contains ''not possible'' ''not possible''"
      by (simp add: contains_def)
    have "intelligent_locate_loop agent env step max_retries 0 s = (Inr None, s2)"
      using loop_break [OF True vl nav] np_in by blast
    moreover have "located 1 s s2"
      using silent_get_navigation_suggestion [of s1 env "screenshot_path agent" step] nav l1
      by (simp add: located_silent)
    ultimately show ?thesis
      by (simp add: intelligent_locate_def located_def)
  next
    case False
    then have one: "max_retries = 1" using pos by simp
    have "intelligent_locate_loop agent env step max_retries 0 s
          = intelligent_locate_loop agent env step max_retries 1 s1"
      using vl one by (subst intelligent_locate_loop.simps) simp
    also have "\<dots> = (Inr None, s1)"
      using one by (subst intelligent_locate_loop.simps) simp
    finally show ?thesis
      using l1 by (simp add: intelligent_locate_def located_def)
  qed
qed

text \<open>
  C1. The auto-navigation loop is a total function of the environment: the recursion
  that models it terminates for every sequence of outcomes. A call with \<open>max_retries\<close>
  makes at most \<open>max_retries\<close> calls of \<open>locate\<close>. In a turn that is not the last, when
  nothing is located and the suggestion is absent or contains "not possible", the loop
  returns nothing at once, in the state the suggestion left. When \<open>locate\<close> always returns
  nothing and the suggestion always is "not possible", the loop returns nothing after
  exactly one call of \<open>locate\<close>.
\<close>

theorem intelligent_locate_bounded:
  "locate_calls (trace (snd (intelligent_locate agent env step max_retries s)))
     \<le> locate_calls (trace s) + nat max_retries
   \<and> (\<forall>attempt s0 s1 s2 suggestion.
         attempt < max_retries - 1
         \<and> vision_locate agent env step s0 = (None, s1)
         \<and> get_navigation_suggestion env (screenshot_path agent) step s1 = (Inr suggestion, s2)
         \<and> (suggestion = None
            \<or> (\<exists>action. suggestion = Some action \<and> contains ''not possible'' action))
         \<longrightarrow> intelligent_locate_loop agent env step max_retries attempt s0 = (Inr None, s2))
   \<and> ((\<forall>s'. fst (vision_locate agent env step s') = None)
       \<and> (\<forall>s'. fst (get_navigation_suggestion env (screenshot_path agent) step s')
                  = Inr (Some ''not possible''))
       \<and> 1 \<le> max_retries
       \<longrightarrow> fst (intelligent_locate agent env step max_retries s) = Inr None
           \<and> locate_calls (trace (snd (intelligent_locate agent env step max_retries s)))
               = locate_calls (trace s) + 1)"
proof (intro conjI allI impI)
  from loop_located [of max_retries 0 s agent env step]
  show "locate_calls (trace (snd (intelligent_locate agent env step max_retries s)))
          \<le> locate_calls (trace s) + nat max_retries"
    by (auto simp: intelligent_locate_def located_def)
next
  fix attempt s0 s1 s2 suggestion
  assume "attempt < max_retries - 1
         \<and> vision_locate agent env step s0 = (None, s1)
         \<and> get_navigation_suggestion env (screenshot_path agent) step s1 = (Inr suggestion, s2)
         \<and> (suggestion = None
            \<or> (\<exists>action. suggestion = Some action \<and> contains ''not possible'' action))"
  then show "intelligent_locate_loop agent env step max_retries attempt s0 = (Inr None, s2)"
    using loop_break by blast
next
  assume h: "(\<forall>s'. fst (vision_locate agent env step s') = None)
       \<and> (\<forall>s'. fst (get_navigation_suggestion env (screenshot_path agent) step s')
                  = Inr (Some ''not possible''))
       \<and> 1 \<le> max_retries"
  then show "fst (intelligent_locate agent env step max_retries s) = Inr None"
    using loop_one_call [of agent env step max_retries s] by blast
  from h show "locate_calls (trace (snd (intelligent_locate agent env step max_retries s)))
               = locate_calls (trace s) + 1"
    using loop_one_call [of agent env step max_retries s] by blast
qed

theorem intelligent_locate_bounded_witness:
  "(\<forall>s'. fst (vision_locate example_agent (fixed_env True (PyStr ''not possible''))
                ''click nonexistent button'' s') = None)
   \<and> (\<forall>s'. fst (get_navigation_suggestion (fixed_env True (PyStr ''not possible''))
                   (screenshot_path example_agent) ''click nonexistent button'' s')
              = Inr (Some ''not possible''))
   \<and> fst (intelligent_locate example_agent (fixed_env True (PyStr ''not possible''))
            ''click nonexistent button'' 3 initial_state) = Inr None
   \<and> locate_calls (trace (snd (intelligent_locate example_agent
         (fixed_env True (PyStr ''not possible'')) ''click nonexistent button'' 3
         initial_state))) = 1"
  using intelligent_locate_bounded [of example_agent "fixed_env True (PyStr ''not possible'')"
          "''click nonexistent button''" 3 initial_state]
  by (simp add: fixed_env_vision_locate fixed_env_not_possible initial_state_def
        locate_calls_def)


section \<open>The device controller: typing, key presses, coordinates\<close>

text \<open>
  C9. For the step "type hello world and press enter" the text extraction returns
  exactly "hello world", and \<open>perform_action\<close> is the one call of \<open>type_text\<close> with that
  string: the driver receives a single \<open>send_keys\<close> call with "hello world".
\<close>

theorem type_hello_world:
  "extract_text ''type hello world and press enter'' = Some ''hello world''
   \<and> perform_action env dc ''type hello world and press enter'' pixel_coords s
       = type_text env ''hello world'' s
   \<and> trace (snd (perform_action env dc ''type hello world and press enter'' pixel_coords s))
       = trace s @ [SendKeys ''hello world'']"
proof -
  have a: "extract_text ''type hello world and press enter'' = Some ''hello world''"
    by (simp add: extract_text_def str_defs)
  have b: "perform_action env dc ''type hello world and press enter'' pixel_coords s
             = type_text env ''hello world'' s"
    by (simp add: perform_action_def a str_defs)
  have c: "trace (snd (type_text env ''hello world'' s)) = trace s @ [SendKeys ''hello world'']"
    by (simp add: type_text_def outside_def emit_def split: prod.splits)
  show ?thesis using a b c by simp
qed

text \<open>
  C5. On the step "press enter" \<open>perform_action\<close> takes the type/input branch, because
  the step contains "enter"; no text is extracted, and it returns \<open>False\<close> without any
  call to the driver. The branch that presses the enter key is never reached.
\<close>

theorem press_enter_presses_nothing:
  "perform_action env dc ''press enter'' pixel_coords s = (False, s)"
proof -
  have none: "extract_text ''press enter'' = None"
    by (simp add: extract_text_def str_defs)
  show ?thesis
    by (simp add: perform_action_def none str_defs)
qed

section \<open>Pixel coordinates\<close>







section \<open>Navigation that fails\<close>

text \<open>
  C7. In a turn of the auto-navigation loop that is not the last, when nothing is
  located, the suggestion is an action other than "not possible" and dispatching it
  returns \<open>False\<close>, the loop goes on with the next attempt from the state the failed
  action left, and makes at least one more call of \<open>locate\<close> there.
\<close>

theorem navigation_failure_continues:
  assumes "attempt < max_retries - 1"
    and "vision_locate agent env step s = (None, s1)"
    and "get_navigation_suggestion env (screenshot_path agent) step s1
           = (Inr (Some action), s2)"
    and "action \<noteq> []" and "\<not> contains ''not possible'' action"
    and "perform_action env (device agent) action None
           (s2\<lparr>stats := record_navigation (stats s2)\<rparr>) = (False, s3)"
  shows "intelligent_locate_loop agent env step max_retries attempt s
           = intelligent_locate_loop agent env step max_retries (attempt + 1) s3
         \<and> locate_calls (trace s3)
             < locate_calls (trace (snd (intelligent_locate_loop agent env step max_retries
                                          attempt s)))"
proof -
  have go: "intelligent_locate_loop agent env step max_retries attempt s
              = intelligent_locate_loop agent env step max_retries (attempt + 1) s3"
    using assms by (subst intelligent_locate_loop.simps) simp
  have "attempt + 1 < max_retries" using assms(1) by simp
  with loop_located [of max_retries "attempt + 1" s3 agent env step]
  have "locate_calls (trace s3)
          < locate_calls (trace (snd (intelligent_locate_loop agent env step max_retries
                                       (attempt + 1) s3)))"
    by (auto simp: located_def)
  with go show ?thesis by simp
qed


lemma fixed_env_scroll_fails:
  "fst (perform_action (fixed_env False answer) dc ''scroll down'' pixel_coords s) = False"
  by (simp add: perform_action_def scroll_def device_swipe_def outside_def fixed_env_def
        Let_def str_defs)

theorem navigation_failure_continues_witness:
  "(let env = fixed_env False (PyStr ''scroll down'');
        s1 = snd (vision_locate example_agent env ''click settings'' initial_state);
        s2 = snd (get_navigation_suggestion env (screenshot_path example_agent)
                    ''click settings'' s1);
        s3 = snd (perform_action env (device example_agent) ''scroll down'' None
                    (s2\<lparr>stats := record_navigation (stats s2)\<rparr>))
    in fst (vision_locate example_agent env ''click settings'' initial_state) = None
       \<and> fst (get_navigation_suggestion env (screenshot_path example_agent)
                ''click settings'' s1) = Inr (Some ''scroll down'')
       \<and> fst (perform_action env (device example_agent) ''scroll down'' None
                (s2\<lparr>stats := record_navigation (stats s2)\<rparr>)) = False
       \<and> intelligent_locate_loop example_agent env ''click settings'' 3 0 initial_state
           = intelligent_locate_loop example_agent env ''click settings'' 3 1 s3
       \<and> locate_calls (trace s3)
           < locate_calls (trace (snd (intelligent_locate_loop example_agent env
                                        ''click settings'' 3 0 initial_state))))"
proof -
  let ?env = "fixed_env False (PyStr ''scroll down'')"
  let ?s1 = "snd (vision_locate example_agent ?env ''click settings'' initial_state)"
  let ?s2 = "snd (get_navigation_suggestion ?env (screenshot_path example_agent)
                    ''click settings'' ?s1)"
  let ?s2' = "?s2\<lparr>stats := record_navigation (stats ?s2)\<rparr>"
  let ?s3 = "snd (perform_action ?env (device example_agent) ''scroll down'' None ?s2')"
  have a: "vision_locate example_agent ?env ''click settings'' initial_state = (None, ?s1)"
    by (simp add: prod_eq_iff fixed_env_vision_locate)
  have b: "get_navigation_suggestion ?env (screenshot_path example_agent) ''click settings'' ?s1
             = (Inr (Some ''scroll down''), ?s2)"
    by (simp add: prod_eq_iff fixed_env_scroll_down)
  have c: "''scroll down'' \<noteq> []" "\<not> contains ''not possible'' ''scroll down''"
    by (simp_all add: contains_def)
  have d: "perform_action ?env (device example_agent) ''scroll down'' None ?s2' = (False, ?s3)"
    by (simp add: prod_eq_iff fixed_env_scroll_fails)
  have e: "(0::int) < 3 - 1" by simp
  have f: "fst (vision_locate example_agent ?env ''click settings'' initial_state) = None"
    by (rule fixed_env_vision_locate)
  have g: "fst (get_navigation_suggestion ?env (screenshot_path example_agent)
                  ''click settings'' ?s1) = Inr (Some ''scroll down'')"
    by (rule fixed_env_scroll_down)
  have h: "fst (perform_action ?env (device example_agent) ''scroll down'' None ?s2') = False"
    by (rule fixed_env_scroll_fails)
  have i: "(0::int) + 1 = 1" by simp
  note j = navigation_failure_continues [OF e a b c d, unfolded i]
  show ?thesis
    unfolding Let_def
    by (intro conjI) (rule f, rule g, rule h, rule conjunct1 [OF j], rule conjunct2 [OF j])
qed


section \<open>What a step records\<close>

lemma action_counters_record_action:
  "action_counters (record_action success st)
     = (actions_performed st + 1,
        successful_actions st + (if success then 1 else 0),
        failed_actions st + (if success then 0 else 1))"
  by (simp add: action_counters_def record_action_def Let_def)

lemma record_action_cong:
  "action_counters st' = action_counters st \<Longrightarrow>
     action_counters (record_action success st') = action_counters (record_action success st)"
  by (simp add: action_counters_def record_action_def Let_def)

text \<open>Recording an action after \<open>n\<close> calls of \<open>locate\<close>: the counters are those of
  \<open>record_action\<close> on the tracker the step started with.\<close>

lemma record_after_located:
  assumes "located n s s1"
  shows "step_events (trace (s1\<lparr>stats := record_action success (stats s1)\<rparr>))
           = step_events (trace s)
         \<and> locate_calls (trace (s1\<lparr>stats := record_action success (stats s1)\<rparr>))
           = locate_calls (trace s) + n
         \<and> action_counters (stats (s1\<lparr>stats := record_action success (stats s1)\<rparr>))
           = action_counters (record_action success (stats s))"
  using assms record_action_cong [of "stats s1" "stats s" success]
  by (simp add: located_def)

lemma perform_and_record_effect:
  assumes "perform_and_record agent env step coords s = (r, s')"
  shows "step_events (trace s') = step_events (trace s)
         \<and> locate_calls (trace s') = locate_calls (trace s)
         \<and> (case r of
               Inl e \<Rightarrow> action_counters (stats s') = action_counters (stats s)
             | Inr success \<Rightarrow>
                 action_counters (stats s') = action_counters (record_action success (stats s)))"
proof -
  let ?pixels = "case coords of
              None \<Rightarrow> Inr None
            | Some c \<Rightarrow>
                map_sum id Some
                  (convert_normalized_to_pixels (device agent) (point_x c) (point_y c))"
  show ?thesis
  proof (cases ?pixels)
    case (Inl e)
    then have "r = Inl e" "s' = s"
      using assms by (simp_all add: perform_and_record_def)
    then show ?thesis by simp
  next
    case (Inr pixel_coords)
    obtain success s1 where pa:
      "perform_action env (device agent) step pixel_coords s = (success, s1)"
      by (cases "perform_action env (device agent) step pixel_coords s")
    have "located 0 s s1"
      using silent_perform_action [of s env "device agent" step pixel_coords] pa
      by (simp add: silent_def)
    from record_after_located [OF this, of success]
    have eff: "step_events (trace (s1\<lparr>stats := record_action success (stats s1)\<rparr>))
           = step_events (trace s)
         \<and> locate_calls (trace (s1\<lparr>stats := record_action success (stats s1)\<rparr>))
           = locate_calls (trace s)
         \<and> action_counters (stats (s1\<lparr>stats := record_action success (stats s1)\<rparr>))
           = action_counters (record_action success (stats s))"
      by simp
    have "r = Inr success" "s' = s1\<lparr>stats := record_action success (stats s1)\<rparr>"
      using assms Inr pa by (simp_all add: perform_and_record_def)
    then show ?thesis using eff by simp
  qed
qed

lemma locate_phase:
  assumes "(if intelligent_mode agent then intelligent_locate agent env step 3 s1
            else (case basic_locate agent env step s1 of (coords, s2) \<Rightarrow> (Inr coords, s2)))
           = (r, s2)"
  shows "\<exists>n. located n s1 s2"
proof (cases "intelligent_mode agent")
  case True
  then have "s2 = snd (intelligent_locate_loop agent env step 3 0 s1)"
    using assms by (simp add: intelligent_locate_def)
  then show ?thesis
    using loop_located [of 3 0 s1 agent env step] by blast
next
  case False
  obtain c s2' where vl: "vision_locate agent env step s1 = (c, s2')"
    by (cases "vision_locate agent env step s1")
  then have "s2 = snd (vision_locate agent env step s1)"
    using assms False by (simp add: basic_locate_def)
  then show ?thesis
    using located_vision_locate [of s1 agent env step] by blast
qed


lemma perform_and_record_cases:
  assumes "perform_and_record agent env step coords s = (r, s')"
  shows "(\<exists>e. r = Inl e \<and> s' = s)
         \<or> (\<exists>success s1. r = Inr success \<and> silent s s1
               \<and> s' = s1\<lparr>stats := record_action success (stats s1)\<rparr>)"
proof -
  let ?pixels = "case coords of
              None \<Rightarrow> Inr None
            | Some c \<Rightarrow>
                map_sum id Some
                  (convert_normalized_to_pixels (device agent) (point_x c) (point_y c))"
  show ?thesis
  proof (cases ?pixels)
    case (Inl e)
    then have "r = Inl e" "s' = s"
      using assms by (simp_all add: perform_and_record_def)
    then show ?thesis by simp
  next
    case (Inr pixel_coords)
    obtain success s1 where pa:
      "perform_action env (device agent) step pixel_coords s = (success, s1)"
      by (cases "perform_action env (device agent) step pixel_coords s")
    have sil: "silent s s1"
      using silent_perform_action [of s env "device agent" step pixel_coords] pa by simp
    have "r = Inr success" "s' = s1\<lparr>stats := record_action success (stats s1)\<rparr>"
      using assms Inr pa by (simp_all add: perform_and_record_def)
    then show ?thesis using sil by blast
  qed
qed

text \<open>The shape of every run of \<open>_execute_step\<close>: the capture fails and nothing else
  happens; or the step gets as far as recording one action, with the flag it returns.\<close>

lemma execute_step_cases:
  assumes "execute_step agent env step s = (success, s')"
  shows "(\<not> fst (capture_screen env (screenshot_path agent) s) \<and> \<not> success \<and> silent s s')
         \<or> (fst (capture_screen env (screenshot_path agent) s)
             \<and> (\<exists>n s2. located n s s2
                   \<and> (list_ex (\<lambda>cmd. contains cmd (lower step))
                         [''scroll'', ''swipe'', ''back'', ''home'', ''wait''] \<longrightarrow> n = 0)
                   \<and> s' = s2\<lparr>stats := record_action success (stats s2)\<rparr>))"
proof (cases "capture_screen env (screenshot_path agent) s")
  case (Pair captured s1)
  have c1: "silent s s1"
    using silent_capture_screen [of s env "screenshot_path agent"] Pair by simp
  let ?nonvisual = "list_ex (\<lambda>cmd. contains cmd (lower step))
                      [''scroll'', ''swipe'', ''back'', ''home'', ''wait'']"
  show ?thesis
  proof (cases captured)
    case False
    then have "execute_step_body agent env step s = (Inr False, s1)"
      using Pair by (simp add: execute_step_body_def)
    then have "success = False" "s' = s1"
      using assms by (simp_all add: execute_step_def)
    then show ?thesis using Pair False c1 by simp
  next
    case True
    have goal: "\<exists>n s2. located n s s2 \<and> (?nonvisual \<longrightarrow> n = 0)
                  \<and> s' = s2\<lparr>stats := record_action success (stats s2)\<rparr>"
    proof (cases ?nonvisual)
      case nv: True
      obtain r sb where par: "perform_and_record agent env step None s1 = (r, sb)"
        by (cases "perform_and_record agent env step None s1")
      then have body: "execute_step_body agent env step s = (r, sb)"
        using Pair True nv by (simp add: execute_step_body_def)
      from perform_and_record_cases [OF par] show ?thesis
      proof (elim disjE exE conjE)
        fix e assume "r = Inl e" "sb = s1"
        then have "success = False" "s' = s1\<lparr>stats := record_action False (stats s1)\<rparr>"
          using assms body by (simp_all add: execute_step_def)
        then show ?thesis using c1 by (auto simp: silent_def)
      next
        fix ok s2 assume "r = Inr ok" "silent s1 s2"
          "sb = s2\<lparr>stats := record_action ok (stats s2)\<rparr>"
        then have "success = ok" "s' = s2\<lparr>stats := record_action ok (stats s2)\<rparr>"
          "located 0 s s2"
          using assms body c1 silent_trans [of s s1 s2]
          by (auto simp: execute_step_def silent_def)
        then show ?thesis by blast
      qed
    next
      case vis: False
      obtain lr s2 where ph:
        "(if intelligent_mode agent then intelligent_locate agent env step 3 s1
          else (case basic_locate agent env step s1 of (coords, s2) \<Rightarrow> (Inr coords, s2)))
         = (lr, s2)"
        by (cases "if intelligent_mode agent then intelligent_locate agent env step 3 s1
                   else (case basic_locate agent env step s1 of
                           (coords, s2) \<Rightarrow> (Inr coords, s2))")
      from locate_phase [OF ph] obtain n where "located n s1 s2" by blast
      then have l2: "located n s s2"
        using c1 silent_located by blast
      show ?thesis
      proof (cases lr)
        case (Inl e)
        then have "execute_step_body agent env step s = (Inl e, s2)"
          using Pair True vis ph by (simp add: execute_step_body_def Let_def)
        then have "success = False" "s' = s2\<lparr>stats := record_action False (stats s2)\<rparr>"
          using assms by (simp_all add: execute_step_def)
        then show ?thesis using l2 vis by blast
      next
        case (Inr coords)
        show ?thesis
        proof (cases "coords = None \<and> \<not> contains ''type'' (lower step)")
          case stop: True
          then have "execute_step_body agent env step s
                     = (Inr False, s2\<lparr>stats := record_action False (stats s2)\<rparr>)"
            using Pair True vis ph Inr by (simp add: execute_step_body_def Let_def)
          then have "success = False" "s' = s2\<lparr>stats := record_action False (stats s2)\<rparr>"
            using assms by (simp_all add: execute_step_def)
          then show ?thesis using l2 vis by blast
        next
          case False
          obtain r sb where par: "perform_and_record agent env step coords s2 = (r, sb)"
            by (cases "perform_and_record agent env step coords s2")
          have body: "execute_step_body agent env step s = (r, sb)"
          proof -
            have "execute_step_body agent env step s
                  = perform_and_record agent env step coords s2"
              using Pair True vis ph Inr False
              by (auto simp: execute_step_body_def Let_def)
            then show ?thesis using par by simp
          qed
          from perform_and_record_cases [OF par] show ?thesis
          proof (elim disjE exE conjE)
            fix e assume "r = Inl e" "sb = s2"
            then have "success = False"
              "s' = s2\<lparr>stats := record_action False (stats s2)\<rparr>"
              using assms body by (simp_all add: execute_step_def)
            then show ?thesis using l2 vis by blast
          next
            fix ok s3 assume "r = Inr ok" "silent s2 s3"
              "sb = s3\<lparr>stats := record_action ok (stats s3)\<rparr>"
            then have "success = ok" "s' = s3\<lparr>stats := record_action ok (stats s3)\<rparr>"
              "located n s s3"
              using assms body l2 located_silent [of n s s2 s3]
              by (auto simp: execute_step_def)
            then show ?thesis using vis by blast
          qed
        qed
      qed
    qed
    then show ?thesis using Pair True by simp
  qed
qed


lemma fixed_env_capture_screen:
  "fst (capture_screen (fixed_env ok answer) save_path s) = ok"
  by (simp add: capture_screen_def outside_def fixed_env_def)

lemma fixed_env_intelligent_locate:
  "fst (intelligent_locate agent (fixed_env ok (PyStr ''not possible'')) step 3 s) = Inr None"
  using loop_one_call [of agent "fixed_env ok (PyStr ''not possible'')" step 3 s]
  by (simp add: fixed_env_vision_locate fixed_env_not_possible)

lemma fixed_env_type_hello:
  "fst (perform_action (fixed_env ok answer) dc ''type hello'' pixel_coords s) = ok"
proof -
  have "extract_text ''type hello'' = Some ''hello''"
    by (simp add: extract_text_def str_defs)
  then show ?thesis
    by (simp add: perform_action_def type_text_def outside_def fixed_env_def str_defs)
qed

section \<open>Steps\<close>

text \<open>
  C4. When the screenshot capture fails, \<open>_execute_step\<close> returns \<open>False\<close> and records
  nothing: the three action counters are the ones it started with.
\<close>

theorem capture_failure_records_nothing:
  assumes "\<not> fst (capture_screen env (screenshot_path agent) s)"
  shows "fst (execute_step agent env step s) = False
         \<and> actions_performed (stats (snd (execute_step agent env step s)))
             = actions_performed (stats s)
         \<and> successful_actions (stats (snd (execute_step agent env step s)))
             = successful_actions (stats s)
         \<and> failed_actions (stats (snd (execute_step agent env step s)))
             = failed_actions (stats s)"
proof (cases "execute_step agent env step s")
  case (Pair success s')
  from execute_step_cases [OF Pair] assms have "\<not> success" "silent s s'" by simp_all
  then show ?thesis
    using Pair by (simp add: silent_def located_def action_counters_def)
qed

theorem capture_failure_records_nothing_witness:
  "\<not> fst (capture_screen (fixed_env False (PyStr ''not possible''))
            (screenshot_path example_agent) initial_state)
   \<and> fst (execute_step example_agent (fixed_env False (PyStr ''not possible''))
            ''click search icon'' initial_state) = False
   \<and> actions_performed (stats (snd (execute_step example_agent
         (fixed_env False (PyStr ''not possible'')) ''click search icon'' initial_state))) = 0"
  using capture_failure_records_nothing [of "fixed_env False (PyStr ''not possible'')"
          example_agent initial_state "''click search icon''"]
  by (simp add: fixed_env_capture_screen initial_state_def init_stats_def)

text \<open>On every other path exactly one action is recorded, with the flag that is
  returned.\<close>

lemma execute_step_records_once:
  assumes "fst (capture_screen env (screenshot_path agent) s)"
  shows "action_counters (stats (snd (execute_step agent env step s)))
           = action_counters (record_action (fst (execute_step agent env step s)) (stats s))"
proof (cases "execute_step agent env step s")
  case (Pair success s')
  from execute_step_cases [OF Pair] assms obtain n s2 where "located n s s2"
    and "s' = s2\<lparr>stats := record_action success (stats s2)\<rparr>" by blast
  then show ?thesis
    using Pair record_after_located [of n s s2 success] by simp
qed

text \<open>
  C10. A visual step whose screenshot was captured and for which the locate strategy
  in use (intelligent or basic) returned nothing: when its lowercased text contains
  "type" it is still dispatched to \<open>perform_action\<close>, without coordinates, and the
  outcome of that call is recorded and returned; otherwise it fails at once, a failed
  action is recorded and \<open>perform_action\<close> is not called.
\<close>

theorem type_step_survives_failed_location:
  assumes "capture_screen env (screenshot_path agent) s = (True, s1)"
    and "\<not> list_ex (\<lambda>cmd. contains cmd (lower step))
             [''scroll'', ''swipe'', ''back'', ''home'', ''wait'']"
    and "intelligent_mode agent \<longrightarrow> intelligent_locate agent env step 3 s1 = (Inr None, s2)"
    and "\<not> intelligent_mode agent \<longrightarrow> basic_locate agent env step s1 = (None, s2)"
  shows "execute_step agent env step s
           = (if contains ''type'' (lower step)
              then (case perform_action env (device agent) step None s2 of
                      (success, s3) \<Rightarrow>
                        (success, s3\<lparr>stats := record_action success (stats s3)\<rparr>))
              else (False, s2\<lparr>stats := record_action False (stats s2)\<rparr>))"
proof -
  have ph: "(if intelligent_mode agent then intelligent_locate agent env step 3 s1
             else (case basic_locate agent env step s1 of (coords, s2) \<Rightarrow> (Inr coords, s2)))
            = (Inr None, s2)"
    using assms(3,4) by (cases "intelligent_mode agent") simp_all
  show ?thesis
  proof (cases "contains ''type'' (lower step)")
    case True
    obtain success s3 where pa: "perform_action env (device agent) step None s2 = (success, s3)"
      by (cases "perform_action env (device agent) step None s2")
    have "execute_step_body agent env step s
            = (Inr success, s3\<lparr>stats := record_action success (stats s3)\<rparr>)"
      using assms(1,2) ph True pa
      by (simp add: execute_step_body_def Let_def perform_and_record_def)
    then show ?thesis using True pa by (simp add: execute_step_def)
  next
    case False
    have "execute_step_body agent env step s
            = (Inr False, s2\<lparr>stats := record_action False (stats s2)\<rparr>)"
      using assms(1,2) ph False by (simp add: execute_step_body_def Let_def)
    then show ?thesis using False by (simp add: execute_step_def)
  qed
qed

theorem type_step_survives_failed_location_witness:
  "fst (execute_step example_agent (fixed_env True (PyStr ''not possible''))
          ''type hello'' initial_state) = True
   \<and> fst (execute_step example_agent (fixed_env True (PyStr ''not possible''))
            ''click nonexistent button'' initial_state) = False"
proof -
  let ?env = "fixed_env True (PyStr ''not possible'')"
  let ?s1 = "snd (capture_screen ?env (screenshot_path example_agent) initial_state)"
  have cap: "capture_screen ?env (screenshot_path example_agent) initial_state = (True, ?s1)"
    by (simp add: prod_eq_iff fixed_env_capture_screen)
  have mode: "intelligent_mode example_agent" by (simp add: example_agent_def)
  have loc: "\<And>step. intelligent_mode example_agent \<longrightarrow>
               intelligent_locate example_agent ?env step 3 ?s1
                 = (Inr None, snd (intelligent_locate example_agent ?env step 3 ?s1))"
    by (simp add: prod_eq_iff fixed_env_intelligent_locate)
  have bas: "\<And>step s2. \<not> intelligent_mode example_agent \<longrightarrow>
               basic_locate example_agent ?env step ?s1 = (None, s2)"
    using mode by simp
  have v1: "\<not> list_ex (\<lambda>cmd. contains cmd (lower ''type hello''))
               [''scroll'', ''swipe'', ''back'', ''home'', ''wait'']"
    and t1: "contains ''type'' (lower ''type hello'')"
    by (simp_all add: str_defs)
  have v2: "\<not> list_ex (\<lambda>cmd. contains cmd (lower ''click nonexistent button''))
               [''scroll'', ''swipe'', ''back'', ''home'', ''wait'']"
    and t2: "\<not> contains ''type'' (lower ''click nonexistent button'')"
    by (simp_all add: str_defs)
  have a: "fst (execute_step example_agent ?env ''type hello'' initial_state) = True"
    using type_step_survives_failed_location [OF cap v1 loc bas] t1
      fixed_env_type_hello [of True "PyStr ''not possible''" "device example_agent" None]
    by (simp add: split_beta)
  have b: "fst (execute_step example_agent ?env ''click nonexistent button'' initial_state)
             = False"
    using type_step_survives_failed_location [OF cap v2 loc bas] t2 by simp
  show ?thesis using a b by simp
qed


section \<open>The tracker during a run\<close>

lemma consistent_same:
  assumes "action_counters st' = action_counters st" and "stats_consistent st"
  shows "stats_consistent st' \<and> counters_le st st'"
  using assms by (simp add: action_counters_def stats_consistent_def counters_le_def)

lemma consistent_record:
  assumes "action_counters st' = action_counters (record_action success st)"
    and "stats_consistent st"
  shows "stats_consistent st' \<and> counters_le st st'"
  using assms
  by (simp add: action_counters_record_action)
     (simp add: action_counters_def stats_consistent_def counters_le_def)

lemma counters_le_trans: "counters_le a b \<Longrightarrow> counters_le b c \<Longrightarrow> counters_le a c"
  by (simp add: counters_le_def)

lemma keeps_stats_located:
  assumes "\<And>s. \<exists>n. located n s (snd (f s))"
  shows "keeps_stats f"
  unfolding keeps_stats_def
proof (intro allI impI)
  fix s :: "'a state"
  assume c: "stats_consistent (stats s)"
  from assms [of s] obtain n where "located n s (snd (f s))" by blast
  then have "action_counters (stats (snd (f s))) = action_counters (stats s)"
    by (simp add: located_def)
  from consistent_same [OF this c]
  show "stats_consistent (stats (snd (f s))) \<and> counters_le (stats s) (stats (snd (f s)))" .
qed

lemma keeps_stats_silent:
  assumes "\<And>s. silent s (snd (f s))"
  shows "keeps_stats f"
  using assms keeps_stats_located [of f] unfolding silent_def by blast

lemma execute_step_keeps:
  assumes "stats_consistent (stats s)"
  shows "stats_consistent (stats (snd (execute_step agent env step s)))
         \<and> counters_le (stats s) (stats (snd (execute_step agent env step s)))"
proof (cases "execute_step agent env step s")
  case (Pair success s')
  from execute_step_cases [OF Pair] show ?thesis
  proof (elim disjE conjE exE)
    assume "silent s s'"
    then have "action_counters (stats s') = action_counters (stats s)"
      by (simp add: silent_def located_def)
    from consistent_same [OF this assms] show ?thesis using Pair by simp
  next
    fix n s2
    assume "located n s s2" "s' = s2\<lparr>stats := record_action success (stats s2)\<rparr>"
    then have "action_counters (stats s') = action_counters (record_action success (stats s))"
      using record_after_located [of n s s2 success] by simp
    from consistent_record [OF this assms] show ?thesis using Pair by simp
  qed
qed

lemma execute_step_step_events:
  "step_events (trace (snd (execute_step agent env step s))) = step_events (trace s)"
proof (cases "execute_step agent env step s")
  case (Pair success s')
  from execute_step_cases [OF Pair] show ?thesis
  proof (elim disjE conjE exE)
    assume "silent s s'"
    then show ?thesis using Pair by (simp add: silent_def located_def)
  next
    fix n s2
    assume "located n s s2" "s' = s2\<lparr>stats := record_action success (stats s2)\<rparr>"
    then show ?thesis using Pair by (simp add: located_def)
  qed
qed

lemma emit_stats [simp]: "stats (emit e s) = stats s"
  by (simp add: emit_def)

lemma pause_stats: "action_counters (stats (pause env seconds s)) = action_counters (stats s)"
  using silent_pause [of s env seconds] by (simp add: silent_def located_def)

lemma pause_step_events: "step_events (trace (pause env seconds s)) = step_events (trace s)"
  using silent_pause [of s env seconds] by (simp add: silent_def located_def)

lemma emit_step_events:
  "is_step_event e \<Longrightarrow> step_events (trace (emit e s)) = step_events (trace s) @ [e]"
  by (simp add: emit_def step_events_def)

lemma run_steps_keeps:
  "stats_consistent (stats s) \<Longrightarrow>
     stats_consistent (stats (snd (run_steps agent env idx l completed s)))
     \<and> counters_le (stats s) (stats (snd (run_steps agent env idx l completed s)))"
proof (induction l arbitrary: idx completed s)
  case Nil
  then show ?case by (simp add: counters_le_def)
next
  case (Cons step rest)
  let ?s0 = "emit (StepBegin idx step) s"
  obtain success s1 where ex: "execute_step agent env step ?s0 = (success, s1)"
    by (cases "execute_step agent env step ?s0")
  have k1: "stats_consistent (stats s1) \<and> counters_le (stats s) (stats s1)"
    using execute_step_keeps [of ?s0 agent env step] Cons.prems ex by simp
  show ?case
  proof (cases success)
    case False
    then show ?thesis using ex k1 by simp
  next
    case True
    let ?s2 = "pause env (1 / 2) (emit (StepEnd idx True) s1)"
    have "action_counters (stats ?s2) = action_counters (stats s1)"
      by (simp add: pause_stats)
    from consistent_same [OF this] k1
    have k2: "stats_consistent (stats ?s2) \<and> counters_le (stats s1) (stats ?s2)" by simp
    from Cons.IH [of ?s2 "idx + 1" "completed + 1"] k2
    have "stats_consistent (stats (snd (run_steps agent env (idx + 1) rest (completed + 1) ?s2)))
          \<and> counters_le (stats ?s2)
               (stats (snd (run_steps agent env (idx + 1) rest (completed + 1) ?s2)))"
      by simp
    then show ?thesis
      using ex True k1 k2 counters_le_trans by (auto simp: counters_le_def)
  qed
qed

lemma mark_counters:
  "action_counters (stats (mark_start env s)) = action_counters (stats s)"
  "action_counters (stats (mark_end env s)) = action_counters (stats s)"
  by (simp_all add: mark_start_def mark_end_def split: prod.splits)

lemma mark_trace:
  "trace (mark_start env s) = trace s" "trace (mark_end env s) = trace s"
  by (simp_all add: mark_start_def mark_end_def split: prod.splits)

lemma run_test_case_state:
  "snd (run_test_case agent env test s)
     = mark_end env (snd (run_steps agent env 1
                            (case steps test of Some l \<Rightarrow> l | None \<Rightarrow> []) 0
                            (mark_start env s)))"
  by (simp add: run_test_case_def Let_def split: prod.splits)

lemma run_test_case_keeps:
  assumes "stats_consistent (stats s)"
  shows "stats_consistent (stats (snd (run_test_case agent env test s)))
         \<and> counters_le (stats s) (stats (snd (run_test_case agent env test s)))"
proof -
  let ?l = "case steps test of Some l \<Rightarrow> l | None \<Rightarrow> []"
  let ?s1 = "mark_start env s"
  let ?s2 = "snd (run_steps agent env 1 ?l 0 ?s1)"
  have a: "stats_consistent (stats ?s1) \<and> counters_le (stats s) (stats ?s1)"
    using consistent_same [OF mark_counters(1) assms] .
  then have b: "stats_consistent (stats ?s2) \<and> counters_le (stats ?s1) (stats ?s2)"
    using run_steps_keeps by blast
  then have c: "stats_consistent (stats (mark_end env ?s2))
                \<and> counters_le (stats ?s2) (stats (mark_end env ?s2))"
    using consistent_same [OF mark_counters(2)] by blast
  show ?thesis
    using a b c counters_le_trans unfolding run_test_case_state by blast
qed


text \<open>
  C6. The tracker starts consistent (\<open>successful_actions + failed_actions =
  actions_performed\<close>). \<open>record_action\<close> keeps it consistent, adds 1 to
  \<open>actions_performed\<close> and 1 to exactly one of \<open>successful_actions\<close> and
  \<open>failed_actions\<close>; the other recording methods leave the three counters alone. Every
  operation of a run, from a driver call up to \<open>run_test_case\<close>, leaves a consistent
  tracker consistent and makes none of the three counters smaller; the states of a run
  are reached by these operations, so this holds at every point of the run.
\<close>

theorem stats_consistent_throughout:
  "stats_consistent init_stats
   \<and> (stats_consistent st \<longrightarrow> stats_consistent (record_action success st))
   \<and> actions_performed (record_action success st) = actions_performed st + 1
   \<and> successful_actions (record_action success st)
       = successful_actions st + (if success then 1 else 0)
   \<and> failed_actions (record_action success st)
       = failed_actions st + (if success then 0 else 1)
   \<and> action_counters (record_query_call st) = action_counters st
   \<and> action_counters (record_point_call st) = action_counters st
   \<and> action_counters (record_reasoning_call st) = action_counters st
   \<and> action_counters (record_navigation st) = action_counters st
   \<and> action_counters (record_detection source st) = action_counters st
   \<and> action_counters (start_test now st) = action_counters st
   \<and> action_counters (end_test now st) = action_counters st
   \<and> keeps_stats (capture_screen env save_path)
   \<and> keeps_stats (perform_action env dc step pixel_coords)
   \<and> keeps_stats (locate env image_path step retry)
   \<and> keeps_stats (query env image_path question retry)
   \<and> keeps_stats (get_navigation_suggestion env image_path step)
   \<and> keeps_stats (basic_locate agent env step)
   \<and> keeps_stats (intelligent_locate agent env step max_retries)
   \<and> keeps_stats (execute_step agent env step)
   \<and> keeps_stats (run_steps agent env idx step_list completed)
   \<and> keeps_stats (run_test_case agent env test)"
proof -
  have a: "stats_consistent init_stats"
    by (simp add: stats_consistent_def init_stats_def)
  have b: "stats_consistent st \<longrightarrow> stats_consistent (record_action success st)"
    using consistent_record [of "record_action success st" success st] by simp
  have c: "actions_performed (record_action success st) = actions_performed st + 1"
    "successful_actions (record_action success st)
       = successful_actions st + (if success then 1 else 0)"
    "failed_actions (record_action success st) = failed_actions st + (if success then 0 else 1)"
    by (simp_all add: record_action_def Let_def)
  have d: "keeps_stats (capture_screen env save_path)"
    "keeps_stats (perform_action env dc step pixel_coords)"
    "keeps_stats (locate env image_path step retry)"
    "keeps_stats (query env image_path question retry)"
    "keeps_stats (get_navigation_suggestion env image_path step)"
    by (simp_all add: keeps_stats_silent silent_capture_screen silent_perform_action
          silent_locate silent_query silent_get_navigation_suggestion)
  have e: "keeps_stats (basic_locate agent env step)"
    using located_vision_locate [of _ agent env step]
    by (intro keeps_stats_located) (auto simp: basic_locate_def)
  have f: "keeps_stats (intelligent_locate agent env step max_retries)"
    using loop_located [of max_retries 0 _ agent env step]
    by (intro keeps_stats_located) (auto simp: intelligent_locate_def)
  have g: "keeps_stats (execute_step agent env step)"
    "keeps_stats (run_steps agent env idx step_list completed)"
    "keeps_stats (run_test_case agent env test)"
    by (simp_all add: keeps_stats_def execute_step_keeps run_steps_keeps run_test_case_keeps)
  show ?thesis
    using a b c d e f g by simp
qed


section \<open>Runs\<close>

lemma run_steps_log:
  "\<exists>k\<le>length l.
     fst (run_steps agent env idx l completed s)
       = (completed + int k, if k < length l then Some (l ! k) else None)
     \<and> step_events (trace (snd (run_steps agent env idx l completed s)))
         = step_events (trace s) @ completed_log idx (take k l)
           @ (if k < length l
              then [StepBegin (idx + int k) (l ! k), StepEnd (idx + int k) False] else [])"
proof (induction l arbitrary: idx completed s)
  case Nil
  show ?case by simp
next
  case (Cons step rest)
  let ?s0 = "emit (StepBegin idx step) s"
  obtain success s1 where ex: "execute_step agent env step ?s0 = (success, s1)"
    by (cases "execute_step agent env step ?s0")
  have ev1: "step_events (trace s1) = step_events (trace s) @ [StepBegin idx step]"
    using execute_step_step_events [of agent env step ?s0] ex
    by (simp add: emit_step_events)
  show ?case
  proof (cases success)
    case False
    have "fst (run_steps agent env idx (step # rest) completed s) = (completed, Some step)"
      and "step_events (trace (snd (run_steps agent env idx (step # rest) completed s)))
           = step_events (trace s) @ [StepBegin idx step, StepEnd idx False]"
      using ex False ev1 by (simp_all add: emit_step_events)
    then show ?thesis by (intro exI [of _ 0]) simp
  next
    case True
    let ?s2 = "pause env (1 / 2) (emit (StepEnd idx True) s1)"
    have ev2: "step_events (trace ?s2)
                 = step_events (trace s) @ [StepBegin idx step, StepEnd idx True]"
      using ev1 by (simp add: pause_step_events emit_step_events)
    have unfold: "run_steps agent env idx (step # rest) completed s
                    = run_steps agent env (idx + 1) rest (completed + 1) ?s2"
      using ex True by simp
    from Cons.IH [of "idx + 1" "completed + 1" ?s2] obtain k where k: "k \<le> length rest"
      and res: "fst (run_steps agent env (idx + 1) rest (completed + 1) ?s2)
                  = (completed + 1 + int k, if k < length rest then Some (rest ! k) else None)"
      and log: "step_events (trace (snd (run_steps agent env (idx + 1) rest (completed + 1) ?s2)))
                  = step_events (trace ?s2) @ completed_log (idx + 1) (take k rest)
                    @ (if k < length rest
                       then [StepBegin (idx + 1 + int k) (rest ! k),
                             StepEnd (idx + 1 + int k) False] else [])"
      by blast
    have "Suc k \<le> length (step # rest)" using k by simp
    moreover have "fst (run_steps agent env idx (step # rest) completed s)
        = (completed + int (Suc k),
           if Suc k < length (step # rest) then Some ((step # rest) ! Suc k) else None)"
      using unfold res by simp
    moreover have "step_events (trace (snd (run_steps agent env idx (step # rest) completed s)))
        = step_events (trace s) @ completed_log idx (take (Suc k) (step # rest))
          @ (if Suc k < length (step # rest)
             then [StepBegin (idx + int (Suc k)) ((step # rest) ! Suc k),
                   StepEnd (idx + int (Suc k)) False] else [])"
      using unfold log ev2 by (simp add: add.assoc add.commute)
    ultimately show ?thesis by (intro exI [of _ "Suc k"]) blast
  qed
qed

text \<open>The progress lines of a run and its result.\<close>

lemma run_test_case_log:
  assumes "steps test = Some l"
  shows "\<exists>k\<le>length l.
           step_events (trace (snd (run_test_case agent env test s)))
             = step_events (trace s) @ completed_log 1 (take k l)
               @ (if k < length l
                  then [StepBegin (1 + int k) (l ! k), StepEnd (1 + int k) False] else [])
           \<and> completed_steps (fst (run_test_case agent env test s)) = int k
           \<and> total_steps (fst (run_test_case agent env test s)) = int (length l)
           \<and> status (fst (run_test_case agent env test s))
               = (if k = length l then ''success'' else ''failed'')
           \<and> failed_step (fst (run_test_case agent env test s))
               = (if k < length l then Some (l ! k) else None)"
proof -
  let ?s1 = "mark_start env s"
  from run_steps_log [of l agent env 1 0 ?s1] obtain k where k: "k \<le> length l"
    and res: "fst (run_steps agent env 1 l 0 ?s1)
                = (int k, if k < length l then Some (l ! k) else None)"
    and log: "step_events (trace (snd (run_steps agent env 1 l 0 ?s1)))
                = step_events (trace ?s1) @ completed_log 1 (take k l)
                  @ (if k < length l
                     then [StepBegin (1 + int k) (l ! k), StepEnd (1 + int k) False] else [])"
    by auto
  obtain s2 where rs: "run_steps agent env 1 l 0 ?s1
                         = ((int k, if k < length l then Some (l ! k) else None), s2)"
    using res by (cases "run_steps agent env 1 l 0 ?s1") simp
  have st: "snd (run_test_case agent env test s) = mark_end env s2"
    using assms rs by (simp add: run_test_case_state)
  have r: "fst (run_test_case agent env test s)
             = \<lparr>status = (if int k = int (length l) then ''success'' else ''failed''),
                completed_steps = int k, total_steps = int (length l),
                failed_step = (if k < length l then Some (l ! k) else None),
                statistics = get_summary (stats (mark_end env s2))\<rparr>"
    using assms rs by (simp add: run_test_case_def Let_def)
  have "step_events (trace (snd (run_test_case agent env test s)))
             = step_events (trace s) @ completed_log 1 (take k l)
               @ (if k < length l
                  then [StepBegin (1 + int k) (l ! k), StepEnd (1 + int k) False] else [])"
    using st log rs by (simp add: mark_trace)
  then show ?thesis using k r by (intro exI [of _ k]) simp
qed


section \<open>Steps that need no location\<close>


lemma fst_outside: "fst (outside e f s) = fst (f (world s))"
  by (simp add: outside_def split_beta)

lemma execute_step_non_visual:
  assumes "list_ex (\<lambda>cmd. contains cmd (lower step))
             [''scroll'', ''swipe'', ''back'', ''home'', ''wait'']"
    and "fst (capture_screen env (screenshot_path agent) s)"
  shows "fst (execute_step agent env step s)
           = fst (perform_action env (device agent) step None
                    (snd (capture_screen env (screenshot_path agent) s)))"
proof (cases "capture_screen env (screenshot_path agent) s")
  case (Pair captured s1)
  then have "captured" using assms(2) by simp
  then have "execute_step_body agent env step s = perform_and_record agent env step None s1"
    using Pair assms(1) by (simp add: execute_step_body_def)
  then show ?thesis
    using Pair
    by (simp add: execute_step_def perform_and_record_def split: prod.splits)
qed





lemma scroll_succeeds:
  assumes "\<forall>fx fy tx ty d w. fst (u2_swipe env fx fy tx ty d w)"
    and "step = ''scroll down'' \<or> step = ''scroll up''"
  shows "fst (perform_action env dc step pixel_coords s)"
proof -
  have down: "perform_action env dc ''scroll down'' pixel_coords s = scroll env dc ''down'' s"
    by (simp add: perform_action_def str_defs)
  have up: "perform_action env dc ''scroll up'' pixel_coords s = scroll env dc ''up'' s"
    by (simp add: perform_action_def str_defs)
  have "fst (scroll env dc ''down'' s)" "fst (scroll env dc ''up'' s)"
    using assms(1) by (simp_all add: scroll_def device_swipe_def fst_outside Let_def)
  then show ?thesis using assms(2) down up by auto
qed

lemma wait_one_second: "extract_wait_time ''wait 1'' = Finite 1"
proof -
  have "search_wait (lower ''wait 1'') = Some ''1''"
    by (simp add: match_wait_here_def is_digit_def str_defs)
  moreover have "decimal_value ''1'' = 1"
    by (simp add: decimal_value_def digit_value_def)
  ultimately show ?thesis
    using round_double_of_int [of 1] by (simp add: extract_wait_time_def)
qed

lemma wait_succeeds:
  assumes "\<forall>seconds w. fst (time_sleep env seconds w)"
  shows "fst (perform_action env dc ''wait 1'' pixel_coords s)"
proof -
  have dispatch: "perform_action env dc ''wait 1'' pixel_coords s
          = (case wait env (extract_wait_time ''wait 1'') s of
               (Inr u, s') \<Rightarrow> (True, s')
             | (Inl e, s') \<Rightarrow> (False, s'))"
    by (simp add: perform_action_def str_defs)
  obtain r s' where w: "wait env (extract_wait_time ''wait 1'') s = (r, s')"
    by (cases "wait env (extract_wait_time ''wait 1'') s")
  have "fst (wait env (extract_wait_time ''wait 1'') s) = Inr ()"
    using assms by (simp add: wait_one_second wait_def split_beta fst_outside)
  then have "r = Inr ()" using w by simp
  then show ?thesis using dispatch w by simp
qed




section \<open>The example run\<close>

lemma fixed_env_scroll_step:
  "fst (execute_step agent (fixed_env True answer) ''scroll down'' s)"
proof -
  have nv: "list_ex (\<lambda>cmd. contains cmd (lower ''scroll down''))
              [''scroll'', ''swipe'', ''back'', ''home'', ''wait'']"
    by (simp add: str_defs)
  have sw: "\<forall>fx fy tx ty d w. fst (u2_swipe (fixed_env True answer) fx fy tx ty d w)"
    by (simp add: fixed_env_def)
  show ?thesis
    using execute_step_non_visual [OF nv, of "fixed_env True answer" agent s]
      scroll_succeeds [OF sw, of "''scroll down''"]
    by (simp add: fixed_env_capture_screen)
qed

lemma fixed_env_click_step:
  "\<not> fst (execute_step example_agent (fixed_env True (PyStr ''not possible''))
           ''click nonexistent button'' s)"
proof -
  let ?env = "fixed_env True (PyStr ''not possible'')"
  let ?step = "''click nonexistent button''"
  obtain s1 where cap: "capture_screen ?env (screenshot_path example_agent) s = (True, s1)"
    using fixed_env_capture_screen [of True "PyStr ''not possible''"
            "screenshot_path example_agent" s]
    by (cases "capture_screen ?env (screenshot_path example_agent) s") simp
  obtain s2 where loc: "intelligent_locate example_agent ?env ?step 3 s1 = (Inr None, s2)"
    using fixed_env_intelligent_locate [of example_agent True ?step s1]
    by (cases "intelligent_locate example_agent ?env ?step 3 s1") simp
  have mode: "intelligent_mode example_agent" by (simp add: example_agent_def)
  have vis: "\<not> list_ex (\<lambda>cmd. contains cmd (lower ?step))
               [''scroll'', ''swipe'', ''back'', ''home'', ''wait'']"
    and no_type: "\<not> contains ''type'' (lower ?step)"
    by (simp_all add: str_defs)
  have "execute_step_body example_agent ?env ?step s
          = (Inr False, s2\<lparr>stats := record_action False (stats s2)\<rparr>)"
    using cap loc mode vis no_type by (simp add: execute_step_body_def Let_def)
  then show ?thesis by (simp add: execute_step_def)
qed

lemma run_steps_failed:
  assumes "\<not> fst (execute_step agent env step (emit (StepBegin idx step) s))"
  shows "run_steps agent env idx (step # rest) completed s
           = ((completed, Some step),
              emit (StepEnd idx False)
                (snd (execute_step agent env step (emit (StepBegin idx step) s))))"
  using assms
  by (cases "execute_step agent env step (emit (StepBegin idx step) s)") simp

lemma run_steps_completed:
  assumes "fst (execute_step agent env step (emit (StepBegin idx step) s))"
  shows "run_steps agent env idx (step # rest) completed s
           = run_steps agent env (idx + 1) rest (completed + 1)
               (pause env (1 / 2)
                  (emit (StepEnd idx True)
                     (snd (execute_step agent env step (emit (StepBegin idx step) s)))))"
  using assms
  by (cases "execute_step agent env step (emit (StepBegin idx step) s)") simp

lemma execute_step_counts:
  assumes "fst (capture_screen env (screenshot_path agent) s)"
  shows "actions_performed (stats (snd (execute_step agent env step s)))
           = actions_performed (stats s) + 1
         \<and> successful_actions (stats (snd (execute_step agent env step s)))
           = successful_actions (stats s)
               + (if fst (execute_step agent env step s) then 1 else 0)
         \<and> failed_actions (stats (snd (execute_step agent env step s)))
           = failed_actions (stats s) + (if fst (execute_step agent env step s) then 0 else 1)"
  using execute_step_records_once [OF assms, of step]
  by (simp add: action_counters_record_action) (simp add: action_counters_def)

lemma example_run:
  "fst (run_steps example_agent (fixed_env True (PyStr ''not possible'')) 1
          [''scroll down'', ''click nonexistent button'', ''wait 1''] 0 s)
     = (1, Some ''click nonexistent button'')
   \<and> action_counters (stats (snd (run_steps example_agent
         (fixed_env True (PyStr ''not possible'')) 1
         [''scroll down'', ''click nonexistent button'', ''wait 1''] 0 s)))
     = (actions_performed (stats s) + 2, successful_actions (stats s) + 1,
        failed_actions (stats s) + 1)"
proof -
  let ?env = "fixed_env True (PyStr ''not possible'')"
  let ?a = "''scroll down''" and ?b = "''click nonexistent button''"
  let ?sa = "emit (StepBegin 1 ?a) s"
  let ?sa' = "snd (execute_step example_agent ?env ?a ?sa)"
  let ?sb = "emit (StepBegin 2 ?b) (pause ?env (1 / 2) (emit (StepEnd 1 True) ?sa'))"
  let ?sb' = "snd (execute_step example_agent ?env ?b ?sb)"
  have cap: "\<And>s'. fst (capture_screen ?env (screenshot_path example_agent) s')"
    by (simp add: fixed_env_capture_screen)
  have a: "fst (execute_step example_agent ?env ?a ?sa)"
    by (rule fixed_env_scroll_step)
  have b: "\<not> fst (execute_step example_agent ?env ?b ?sb)"
    by (rule fixed_env_click_step)
  have run: "run_steps example_agent ?env 1 [?a, ?b, ''wait 1''] 0 s
               = ((1, Some ?b), emit (StepEnd 2 False) ?sb')"
    using run_steps_completed [OF a, of "[?b, ''wait 1'']" 0]
      run_steps_failed [OF b, of "[''wait 1'']" 1]
    by simp
  have ca: "action_counters (stats ?sa')
              = (actions_performed (stats s) + 1, successful_actions (stats s) + 1,
                 failed_actions (stats s))"
    using execute_step_counts [of ?env example_agent ?sa ?a] cap a by (simp add: action_counters_def)
  have "action_counters (stats ?sb) = action_counters (stats ?sa')"
    by (simp add: pause_stats)
  then have cb: "action_counters (stats ?sb)
              = (actions_performed (stats s) + 1, successful_actions (stats s) + 1,
                 failed_actions (stats s))"
    using ca by simp
  have "action_counters (stats ?sb')
              = (actions_performed (stats ?sb) + 1, successful_actions (stats ?sb),
                 failed_actions (stats ?sb) + 1)"
    using execute_step_counts [of ?env example_agent ?sb ?b] cap b by (simp add: action_counters_def)
  then have "action_counters (stats ?sb')
              = (actions_performed (stats s) + 2, successful_actions (stats s) + 1,
                 failed_actions (stats s) + 1)"
    using cb by (simp add: action_counters_def)
  then show ?thesis using run by simp
qed


lemma example_run_result:
  "completed_steps (fst (run_test_case example_agent (fixed_env True (PyStr ''not possible''))
                           example_test initial_state)) = 1
   \<and> action_counters (stats (snd (run_test_case example_agent
         (fixed_env True (PyStr ''not possible'')) example_test initial_state))) = (2, 1, 1)"
proof -
  let ?env = "fixed_env True (PyStr ''not possible'')"
  let ?l = "[''scroll down'', ''click nonexistent button'', ''wait 1'']"
  let ?s1 = "mark_start ?env initial_state"
  obtain s2 where rs: "run_steps example_agent ?env 1 ?l 0 ?s1
                         = ((1, Some ''click nonexistent button''), s2)"
    using example_run [of ?s1] by (cases "run_steps example_agent ?env 1 ?l 0 ?s1") simp
  have "action_counters (stats ?s1) = (0, 0, 0)"
    by (simp add: mark_counters) (simp add: action_counters_def initial_state_def init_stats_def)
  then have "action_counters (stats s2) = (2, 1, 1)"
    using example_run [of ?s1] rs by (simp add: action_counters_def)
  then have "action_counters (stats (mark_end ?env s2)) = (2, 1, 1)"
    by (simp add: mark_counters)
  moreover have "snd (run_test_case example_agent ?env example_test initial_state)
                   = mark_end ?env s2"
    using rs by (simp add: run_test_case_state example_test_def)
  moreover have "completed_steps (fst (run_test_case example_agent ?env example_test
                                         initial_state)) = 1"
    using rs by (simp add: run_test_case_def Let_def example_test_def)
  ultimately show ?thesis by simp
qed

theorem stats_consistent_throughout_witness:
  "stats_consistent (stats initial_state)
   \<and> stats_consistent (stats (snd (run_test_case example_agent
         (fixed_env True (PyStr ''not possible'')) example_test initial_state)))
   \<and> counters_le (stats initial_state)
        (stats (snd (run_test_case example_agent
           (fixed_env True (PyStr ''not possible'')) example_test initial_state)))
   \<and> action_counters (stats (snd (run_test_case example_agent
         (fixed_env True (PyStr ''not possible'')) example_test initial_state))) = (2, 1, 1)"
proof -
  let ?env = "fixed_env True (PyStr ''not possible'')"
  have init: "stats_consistent (stats initial_state)"
    by (simp add: initial_state_def stats_consistent_def init_stats_def)
  have "keeps_stats (run_test_case example_agent ?env example_test)"
    using stats_consistent_throughout [where agent = example_agent and env = ?env
            and test = example_test]
    by blast
  then have "stats_consistent (stats (snd (run_test_case example_agent ?env example_test
                                             initial_state)))
             \<and> counters_le (stats initial_state)
                  (stats (snd (run_test_case example_agent ?env example_test initial_state)))"
    using init unfolding keeps_stats_def by blast
  then show ?thesis using init example_run_result by simp
qed


section \<open>The first step that fails\<close>

lemma state_before_Cons:
  "state_before agent env idx (step # rest) s (Suc i)
     = state_before agent env (idx + 1) rest
         (pause env (1 / 2)
            (emit (StepEnd idx True)
               (snd (execute_step agent env step (emit (StepBegin idx step) s))))) i"
proof (induction i)
  case 0
  show ?case by simp
next
  case (Suc i)
  then show ?case by (simp add: ac_simps)
qed

lemma step_returns_Cons:
  "step_returns agent env idx (step # rest) s (Suc i)
     = step_returns agent env (idx + 1) rest
         (pause env (1 / 2)
            (emit (StepEnd idx True)
               (snd (execute_step agent env step (emit (StepBegin idx step) s))))) i"
  unfolding step_returns_def state_before_Cons by (simp add: ac_simps)

lemma step_returns_0:
  "step_returns agent env idx (step # rest) s 0
     = fst (execute_step agent env step (emit (StepBegin idx step) s))"
  by (simp add: step_returns_def)

lemma run_steps_first_failure:
  assumes "k < length l" and "\<forall>i<k. step_returns agent env idx l s i"
    and "\<not> step_returns agent env idx l s k"
  shows "run_steps agent env idx l completed s
           = ((completed + int k, Some (l ! k)),
              emit (StepEnd (idx + int k) False)
                (snd (execute_step agent env (l ! k)
                        (emit (StepBegin (idx + int k) (l ! k))
                           (state_before agent env idx l s k)))))"
  using assms
proof (induction k arbitrary: idx l completed s)
  case 0
  then obtain step rest where l: "l = step # rest" by (cases l) auto
  have "\<not> fst (execute_step agent env step (emit (StepBegin idx step) s))"
    using "0.prems"(3) unfolding l step_returns_0 .
  from run_steps_failed [OF this] show ?case by (simp add: l)
next
  case (Suc k)
  then obtain step rest where l: "l = step # rest" by (cases l) auto
  let ?s' = "pause env (1 / 2)
               (emit (StepEnd idx True)
                  (snd (execute_step agent env step (emit (StepBegin idx step) s))))"
  have first: "fst (execute_step agent env step (emit (StepBegin idx step) s))"
    using Suc.prems(2) [rule_format, of 0] unfolding l step_returns_0 by simp
  have k: "k < length rest" using Suc.prems(1) l by simp
  have before: "\<forall>i<k. step_returns agent env (idx + 1) rest ?s' i"
  proof (intro allI impI)
    fix i assume "i < k"
    then have "step_returns agent env idx (step # rest) s (Suc i)"
      using Suc.prems(2) l by simp
    then show "step_returns agent env (idx + 1) rest ?s' i"
      unfolding step_returns_Cons .
  qed
  have at: "\<not> step_returns agent env (idx + 1) rest ?s' k"
    using Suc.prems(3) unfolding l step_returns_Cons .
  from Suc.IH [OF k before at, of "completed + 1"]
  show ?case
    unfolding l run_steps_completed [OF first] state_before_Cons
    by (simp add: ac_simps)
qed

lemma run_steps_all_return_true:
  assumes "\<forall>i<length l. step_returns agent env idx l s i"
  shows "run_steps agent env idx l completed s
           = ((completed + int (length l), None), state_before agent env idx l s (length l))"
  using assms
proof (induction l arbitrary: idx completed s)
  case Nil
  show ?case by simp
next
  case (Cons step rest)
  let ?s' = "pause env (1 / 2)
               (emit (StepEnd idx True)
                  (snd (execute_step agent env step (emit (StepBegin idx step) s))))"
  have first: "fst (execute_step agent env step (emit (StepBegin idx step) s))"
    using Cons.prems [rule_format, of 0] unfolding step_returns_0 by simp
  have rest: "\<forall>i<length rest. step_returns agent env (idx + 1) rest ?s' i"
  proof (intro allI impI)
    fix i assume "i < length rest"
    then have "step_returns agent env idx (step # rest) s (Suc i)"
      using Cons.prems by simp
    then show "step_returns agent env (idx + 1) rest ?s' i"
      unfolding step_returns_Cons .
  qed
  from Cons.IH [OF rest, of "completed + 1"]
  show ?case
    unfolding run_steps_completed [OF first] length_Cons state_before_Cons
    by (simp add: ac_simps)
qed


text \<open>
  C2. Let the steps of a test case be executed one after the other as \<open>run_test_case\<close>
  does. If step k+1 (k counted from 0) is the first whose execution returns \<open>False\<close>,
  the result has \<open>completed_steps = k\<close>, \<open>failed_step\<close> the text of that step and
  status "failed"; the run ends in the state that execution left, with only the
  "failed" line and the end mark added, so no later step is attempted, and its progress
  lines are those of steps 1 to k+1. If the executions of all N steps return \<open>True\<close>,
  the result has \<open>completed_steps = N\<close>, status "success" and no \<open>failed_step\<close>.
\<close>

theorem run_test_case_first_failure:
  assumes "steps test = Some l"
  shows "(k < length l
          \<and> (\<forall>i<k. step_returns agent env 1 l (mark_start env s) i)
          \<and> \<not> step_returns agent env 1 l (mark_start env s) k
          \<longrightarrow> completed_steps (fst (run_test_case agent env test s)) = int k
              \<and> total_steps (fst (run_test_case agent env test s)) = int (length l)
              \<and> failed_step (fst (run_test_case agent env test s)) = Some (l ! k)
              \<and> status (fst (run_test_case agent env test s)) = ''failed''
              \<and> snd (run_test_case agent env test s)
                  = mark_end env
                      (emit (StepEnd (1 + int k) False)
                         (snd (execute_step agent env (l ! k)
                                 (emit (StepBegin (1 + int k) (l ! k))
                                    (state_before agent env 1 l (mark_start env s) k)))))
              \<and> step_events (trace (snd (run_test_case agent env test s)))
                  = step_events (trace s) @ completed_log 1 (take k l)
                    @ [StepBegin (1 + int k) (l ! k), StepEnd (1 + int k) False])
         \<and> ((\<forall>i<length l. step_returns agent env 1 l (mark_start env s) i)
             \<longrightarrow> completed_steps (fst (run_test_case agent env test s)) = int (length l)
                 \<and> total_steps (fst (run_test_case agent env test s)) = int (length l)
                 \<and> failed_step (fst (run_test_case agent env test s)) = None
                 \<and> status (fst (run_test_case agent env test s)) = ''success''
                 \<and> step_events (trace (snd (run_test_case agent env test s)))
                     = step_events (trace s) @ completed_log 1 l)"
proof -
  let ?s0 = "mark_start env s"
  let ?r = "fst (run_test_case agent env test s)"
  let ?s' = "snd (run_test_case agent env test s)"
  from run_test_case_log [OF assms, of agent env s] obtain k' where k': "k' \<le> length l"
    and log: "step_events (trace ?s')
                = step_events (trace s) @ completed_log 1 (take k' l)
                  @ (if k' < length l
                     then [StepBegin (1 + int k') (l ! k'), StepEnd (1 + int k') False] else [])"
    and comp: "completed_steps ?r = int k'"
    by blast
  have first: "completed_steps ?r = int k
              \<and> total_steps ?r = int (length l)
              \<and> failed_step ?r = Some (l ! k)
              \<and> status ?r = ''failed''
              \<and> ?s' = mark_end env
                      (emit (StepEnd (1 + int k) False)
                         (snd (execute_step agent env (l ! k)
                                 (emit (StepBegin (1 + int k) (l ! k))
                                    (state_before agent env 1 l ?s0 k)))))
              \<and> step_events (trace ?s')
                  = step_events (trace s) @ completed_log 1 (take k l)
                    @ [StepBegin (1 + int k) (l ! k), StepEnd (1 + int k) False]"
    if h: "k < length l \<and> (\<forall>i<k. step_returns agent env 1 l ?s0 i)
           \<and> \<not> step_returns agent env 1 l ?s0 k"
  proof -
    let ?sf = "emit (StepEnd (1 + int k) False)
                 (snd (execute_step agent env (l ! k)
                         (emit (StepBegin (1 + int k) (l ! k))
                            (state_before agent env 1 l ?s0 k))))"
    have rs: "run_steps agent env 1 l 0 ?s0 = ((int k, Some (l ! k)), ?sf)"
      using run_steps_first_failure [of k l agent env 1 ?s0 0] h by simp
    have res: "?r = \<lparr>status = ''failed'', completed_steps = int k,
                     total_steps = int (length l), failed_step = Some (l ! k),
                     statistics = get_summary (stats (mark_end env ?sf))\<rparr>"
      using assms rs h by (simp add: run_test_case_def Let_def)
    have st: "?s' = mark_end env ?sf"
      using assms rs by (simp add: run_test_case_state)
    have "k' = k" using comp res by simp
    then have "step_events (trace ?s')
                 = step_events (trace s) @ completed_log 1 (take k l)
                   @ [StepBegin (1 + int k) (l ! k), StepEnd (1 + int k) False]"
      using log h by simp
    then show ?thesis using res st by simp
  qed
  have every: "completed_steps ?r = int (length l)
                 \<and> total_steps ?r = int (length l)
                 \<and> failed_step ?r = None
                 \<and> status ?r = ''success''
                 \<and> step_events (trace ?s') = step_events (trace s) @ completed_log 1 l"
    if h: "\<forall>i<length l. step_returns agent env 1 l ?s0 i"
  proof -
    let ?sf = "state_before agent env 1 l ?s0 (length l)"
    have rs: "run_steps agent env 1 l 0 ?s0 = ((int (length l), None), ?sf)"
      using run_steps_all_return_true [of l agent env 1 ?s0 0] h by simp
    have res: "?r = \<lparr>status = ''success'', completed_steps = int (length l),
                     total_steps = int (length l), failed_step = None,
                     statistics = get_summary (stats (mark_end env ?sf))\<rparr>"
      using assms rs by (simp add: run_test_case_def Let_def)
    have "k' = length l" using comp res by simp
    then have "step_events (trace ?s') = step_events (trace s) @ completed_log 1 l"
      using log by simp
    then show ?thesis using res by simp
  qed
  show ?thesis using first every by blast
qed

lemma fixed_env_non_visual_steps:
  assumes "step \<in> set [''scroll down'', ''wait 1'', ''scroll up'']"
  shows "fst (execute_step agent (fixed_env True answer) step s)"
proof -
  have nv: "list_ex (\<lambda>cmd. contains cmd (lower step))
              [''scroll'', ''swipe'', ''back'', ''home'', ''wait'']"
    using assms by (auto simp: str_defs)
  have sw: "\<forall>fx fy tx ty d w. fst (u2_swipe (fixed_env True answer) fx fy tx ty d w)"
    and sl: "\<forall>seconds w. fst (time_sleep (fixed_env True answer) seconds w)"
    by (simp_all add: fixed_env_def)
  have "fst (perform_action (fixed_env True answer) (device agent) step None
               (snd (capture_screen (fixed_env True answer) (screenshot_path agent) s)))"
    using assms scroll_succeeds [OF sw] wait_succeeds [OF sl] by auto
  then show ?thesis
    using execute_step_non_visual [OF nv, of "fixed_env True answer" agent s]
    by (simp add: fixed_env_capture_screen)
qed

theorem run_test_case_first_failure_witness:
  "steps example_test = Some [''scroll down'', ''click nonexistent button'', ''wait 1'']
   \<and> step_returns example_agent (fixed_env True (PyStr ''not possible'')) 1
        [''scroll down'', ''click nonexistent button'', ''wait 1'']
        (mark_start (fixed_env True (PyStr ''not possible'')) initial_state) 0
   \<and> \<not> step_returns example_agent (fixed_env True (PyStr ''not possible'')) 1
          [''scroll down'', ''click nonexistent button'', ''wait 1'']
          (mark_start (fixed_env True (PyStr ''not possible'')) initial_state) 1
   \<and> completed_steps (fst (run_test_case example_agent
          (fixed_env True (PyStr ''not possible'')) example_test initial_state)) = 1
   \<and> failed_step (fst (run_test_case example_agent
          (fixed_env True (PyStr ''not possible'')) example_test initial_state))
       = Some ''click nonexistent button''
   \<and> status (fst (run_test_case example_agent
          (fixed_env True (PyStr ''not possible'')) example_test initial_state)) = ''failed''
   \<and> step_events (trace (snd (run_test_case example_agent
          (fixed_env True (PyStr ''not possible'')) example_test initial_state)))
       = [StepBegin 1 ''scroll down'', StepEnd 1 True,
          StepBegin 2 ''click nonexistent button'', StepEnd 2 False]
   \<and> steps non_visual_test = Some [''scroll down'', ''wait 1'', ''scroll up'']
   \<and> step_returns example_agent (fixed_env True (PyStr ''not possible'')) 1
        [''scroll down'', ''wait 1'', ''scroll up'']
        (mark_start (fixed_env True (PyStr ''not possible'')) initial_state) 0
   \<and> step_returns example_agent (fixed_env True (PyStr ''not possible'')) 1
        [''scroll down'', ''wait 1'', ''scroll up'']
        (mark_start (fixed_env True (PyStr ''not possible'')) initial_state) 1
   \<and> step_returns example_agent (fixed_env True (PyStr ''not possible'')) 1
        [''scroll down'', ''wait 1'', ''scroll up'']
        (mark_start (fixed_env True (PyStr ''not possible'')) initial_state) 2
   \<and> completed_steps (fst (run_test_case example_agent
          (fixed_env True (PyStr ''not possible'')) non_visual_test initial_state)) = 3
   \<and> failed_step (fst (run_test_case example_agent
          (fixed_env True (PyStr ''not possible'')) non_visual_test initial_state)) = None
   \<and> status (fst (run_test_case example_agent
          (fixed_env True (PyStr ''not possible'')) non_visual_test initial_state))
       = ''success''"
proof -
  let ?env = "fixed_env True (PyStr ''not possible'')"
  let ?l = "[''scroll down'', ''click nonexistent button'', ''wait 1'']"
  let ?n = "[''scroll down'', ''wait 1'', ''scroll up'']"
  let ?s0 = "mark_start ?env initial_state"
  have st: "steps example_test = Some ?l" by (simp add: example_test_def)
  have sn: "steps non_visual_test = Some ?n" by (simp add: non_visual_test_def)
  have l0: "step_returns example_agent ?env 1 ?l ?s0 0"
    unfolding step_returns_def using fixed_env_scroll_step by simp
  have l1: "\<not> step_returns example_agent ?env 1 ?l ?s0 1"
    unfolding step_returns_def using fixed_env_click_step by simp
  have n_all: "step_returns example_agent ?env 1 ?n ?s0 i" if "i < 3" for i
  proof -
    have "?n ! i \<in> set ?n" using that by (intro nth_mem) simp
    then show ?thesis
      unfolding step_returns_def by (rule fixed_env_non_visual_steps)
  qed
  have h1: "1 < length ?l \<and> (\<forall>i<1. step_returns example_agent ?env 1 ?l ?s0 i)
            \<and> \<not> step_returns example_agent ?env 1 ?l ?s0 1"
    using l0 l1 by simp
  have h2: "\<forall>i<length ?n. step_returns example_agent ?env 1 ?n ?s0 i"
    using n_all by simp
  note a = run_test_case_first_failure [OF st, of 1 example_agent ?env initial_state,
             THEN conjunct1, THEN mp, OF h1]
  note b = run_test_case_first_failure [OF sn, of 0 example_agent ?env initial_state,
             THEN conjunct2, THEN mp, OF h2]
  let ?r = "fst (run_test_case example_agent ?env example_test initial_state)"
  let ?s' = "snd (run_test_case example_agent ?env example_test initial_state)"
  let ?rn = "fst (run_test_case example_agent ?env non_visual_test initial_state)"
  from a have a6: "step_events (trace ?s')
                     = step_events (trace initial_state) @ completed_log 1 (take 1 ?l)
                       @ [StepBegin (1 + int 1) (?l ! 1), StepEnd (1 + int 1) False]"
    by blast
  have log: "step_events (trace ?s')
               = [StepBegin 1 ''scroll down'', StepEnd 1 True,
                  StepBegin 2 ''click nonexistent button'', StepEnd 2 False]"
    unfolding a6 by (simp add: initial_state_def step_events_def)
  from a have a': "completed_steps ?r = int 1 \<and> failed_step ?r = Some (?l ! 1)
                   \<and> status ?r = ''failed''"
    by blast
  from b have b': "completed_steps ?rn = int (length ?n) \<and> failed_step ?rn = None
                   \<and> status ?rn = ''success''"
    by blast
  show ?thesis
    using st sn l0 l1 n_all [of 0] n_all [of 1] n_all [of 2] a' b' log by simp
qed

end
